theory Spec2Isabelle
  imports Main "HOL-Library.AList"
begin

section \<open>Markdown strings and URIs\<close>

text \<open>A URI is its five components.\<close>

record URI =
  scheme :: string
  authority :: string
  path :: string
  query :: string
  fragment :: string

text \<open>
  Modelled from the spec: \<open>isEqual\<close> of \<open>resources.js\<close>, which is not among the sources.
  The spec calls it URI equality; the library compares the comparison keys of the two
  URIs with the case-sensitive \<open>extUri\<close>, fragments included, that is their components.
\<close>

definition isEqual :: "URI \<Rightarrow> URI \<Rightarrow> bool" where
  "isEqual uri1 uri2 = (uri1 = uri2)"

text \<open>
  \<open>IMarkdownString.isTrusted\<close> is \<open>boolean | MarkdownStringTrustedOptions | undefined\<close>;
  the optional fields are \<open>None\<close> when \<open>undefined\<close>.
\<close>

datatype MarkdownStringTrust = TrustBool bool | TrustEnabledCommands "string list"

record IMarkdownString =
  "value" :: string
  isTrusted :: "MarkdownStringTrust option"
  supportThemeIcons :: "bool option"
  supportHtml :: "bool option"
  baseUri :: "URI option"

text \<open>
  Modelled from the spec: \<open>equals\<close> of \<open>objects.js\<close>, which is not among the sources.
  The spec asks for the trust attributes to be equal; the library compares two values
  deeply, by structure.
\<close>

definition equals :: "MarkdownStringTrust option \<Rightarrow> MarkdownStringTrust option \<Rightarrow> bool" where
  "equals one other = (one = other)"

definition canMergeMarkdownStrings :: "IMarkdownString \<Rightarrow> IMarkdownString \<Rightarrow> bool" where
  "canMergeMarkdownStrings md1 md2 =
     (let rest = (equals (isTrusted md1) (isTrusted md2) \<and>
                  supportHtml md1 = supportHtml md2 \<and>
                  supportThemeIcons md1 = supportThemeIcons md2)
      in case (baseUri md1, baseUri md2) of
           (Some b1, Some b2) \<Rightarrow>
             (let baseUriEquals = (scheme b1 = scheme b2 \<and> authority b1 = authority b2 \<and>
                                   path b1 = path b2 \<and> query b1 = query b2 \<and>
                                   fragment b1 = fragment b2)
              in if \<not> baseUriEquals then False else rest)
         | (None, None) \<Rightarrow> rest
         | _ \<Rightarrow> False)"

definition appendMarkdownString :: "IMarkdownString \<Rightarrow> IMarkdownString \<Rightarrow> IMarkdownString" where
  "appendMarkdownString md1 md2 =
     \<lparr> value = value md1 @ value md2,
       isTrusted = isTrusted md1,
       supportThemeIcons = supportThemeIcons md1,
       supportHtml = supportHtml md1,
       baseUri = baseUri md1 \<rparr>"

text \<open>
  Modelled from the spec: the class \<open>MarkdownString\<close> of \<open>htmlContent.js\<close>, which is not
  among the sources. \<open>new MarkdownString(value)\<close> holds the text, with the attributes the
  spec names for a markdown part at their defaults: untrusted, no theme icons, no HTML, no
  base URI.
\<close>

definition MarkdownString :: "string \<Rightarrow> IMarkdownString" where
  "MarkdownString v =
     \<lparr> value = v, isTrusted = Some (TrustBool False), supportThemeIcons = Some False,
       supportHtml = Some False, baseUri = None \<rparr>"

section \<open>Response content parts\<close>

record IRange =
  startLineNumber :: nat
  startColumn :: nat
  endLineNumber :: nat
  endColumn :: nat

record TextEdit =
  range :: IRange
  "text" :: string

record IChatTextEditGroupState =
  sha1 :: string
  applied :: nat

text \<open>
  The tagged union \<open>IChatProgressResponseContent\<close>, one constructor per \<open>kind\<close>. The
  payloads of the kinds that the accumulator only stores are kept as their text.
\<close>

datatype IChatProgressResponseContent =
    MarkdownContent IMarkdownString
  | MarkdownVuln IMarkdownString
  | CodeblockUri URI
  | TreeData string
  | InlineReference string
  | ProgressMessage IMarkdownString
  | Command string
  | Warning IMarkdownString
  | ProgressTask IMarkdownString
  | TextEditGroup URI "TextEdit list list" "IChatTextEditGroupState option" "bool option"
  | Confirmation string string
  | ToolTypeError string
  | PlanStep nat IMarkdownString
  | Stage string

text \<open>
  What \<open>updateContent\<close> accepts: a response content part, or an \<open>IChatTextEdit\<close>
  (\<open>kind: 'textEdit'\<close>, with \<open>uri\<close>, \<open>edits\<close> and \<open>done\<close>), which is never stored as such.
\<close>

datatype IChatProgress =
    Content IChatProgressResponseContent
  | TextEditProgress URI "TextEdit list" "bool option"

text \<open>
  Class \<open>Response\<close>: the ordered parts, the citations, and the number of times
  \<open>onDidChangeValue\<close> has fired. The two derived strings that \<open>_updateRepr\<close> recomputes
  are projections of the parts and are not carried.
\<close>

record Response =
  responseParts :: "IChatProgressResponseContent list"
  citations :: "string list"
  changeValueFired :: nat

definition updateRepr :: "bool \<Rightarrow> Response \<Rightarrow> Response" where
  "updateRepr quiet r = (if \<not> quiet then r\<lparr>changeValueFired := Suc (changeValueFired r)\<rparr> else r)"

definition clear :: "Response \<Rightarrow> Response" where
  "clear r = updateRepr True (r\<lparr>responseParts := []\<rparr>)"

text \<open>
  The markdown branch: the last part is read at index \<open>length - 1\<close>; on an empty list
  that is \<open>undefined\<close> and the fragment is pushed.
\<close>

definition updateMarkdown ::
  "IChatProgressResponseContent list \<Rightarrow> IMarkdownString \<Rightarrow> IChatProgressResponseContent list" where
  "updateMarkdown parts content =
     (if parts = [] then parts @ [MarkdownContent content]
      else (case last parts of
              MarkdownContent lastContent \<Rightarrow>
                (if \<not> canMergeMarkdownStrings lastContent content
                 then parts @ [MarkdownContent content]
                 else butlast parts @ [MarkdownContent (appendMarkdownString lastContent content)])
            | _ \<Rightarrow> parts @ [MarkdownContent content]))"

text \<open>
  The text-edit loop \<open>for (i = 0; !found && i < length; i++)\<close>: the first group with an
  equal URI takes the batch and the \<open>done\<close> flag; the result says whether one was found.
\<close>

fun mergeTextEdit ::
  "IChatProgressResponseContent list \<Rightarrow> URI \<Rightarrow> TextEdit list \<Rightarrow> bool option \<Rightarrow>
   IChatProgressResponseContent list \<times> bool" where
  "mergeTextEdit [] uri edits done = ([], False)"
| "mergeTextEdit (candidate # rest) uri edits done =
     (case candidate of
        TextEditGroup curi cedits cstate cdone \<Rightarrow>
          (if isEqual curi uri
           then (TextEditGroup curi (cedits @ [edits]) cstate done # rest, True)
           else (let (rest', found) = mergeTextEdit rest uri edits done
                 in (candidate # rest', found)))
      | _ \<Rightarrow> (let (rest', found) = mergeTextEdit rest uri edits done
              in (candidate # rest', found)))"

definition updateTextEdit ::
  "IChatProgressResponseContent list \<Rightarrow> URI \<Rightarrow> TextEdit list \<Rightarrow> bool option \<Rightarrow>
   IChatProgressResponseContent list" where
  "updateTextEdit parts uri edits done =
     (let (parts', found) = mergeTextEdit parts uri edits done
      in if \<not> found then parts' @ [TextEditGroup uri [edits] None done] else parts')"

text \<open>
  \<open>Response.updateContent\<close>. A task is pushed as it arrives; its later resolution
  (a promise) is outside the synchronous call.
\<close>

fun updateContent :: "Response \<Rightarrow> IChatProgress \<Rightarrow> bool \<Rightarrow> Response" where
  "updateContent r (Content (MarkdownContent content)) quiet =
     updateRepr quiet (r\<lparr>responseParts := updateMarkdown (responseParts r) content\<rparr>)"
| "updateContent r (TextEditProgress uri edits done) quiet =
     (if length edits > 0
      then updateRepr quiet (r\<lparr>responseParts := updateTextEdit (responseParts r) uri edits done\<rparr>)
      else r)"
| "updateContent r (Content progress) quiet =
     updateRepr quiet (r\<lparr>responseParts := responseParts r @ [progress]\<rparr>)"

section \<open>Requests and responses\<close>

record IChatResponseErrorDetails =
  message :: string
  responseIsRedacted :: "bool option"

record IChatAgentResult =
  errorDetails :: "IChatResponseErrorDetails option"

datatype ChatAgentVoteDirection = Down | Up

record IChatRequestVariableEntry =
  entryId :: string
  entryName :: string
  entryValue :: "string option"

text \<open>
  A parsed request: its text and its parts (for each part its kind, offset range,
  editor range and text).
\<close>

record IParsedChatRequestPart =
  partKind :: string
  partRange :: "nat \<times> nat"
  editorRange :: IRange
  partText :: string

record IParsedChatRequest =
  "text" :: string
  parts :: "IParsedChatRequestPart list"

text \<open>
  The fields that requests and responses share. \<open>id'\<close> is the \<open>id\<close> of the source:
  \<open>'request_' + nextId++\<close> or \<open>'response_' + nextId++\<close>, from two static counters.
\<close>

record IChatExchange =
  id' :: string
  shouldBeRemovedOnSend :: bool
  isCompleteAddedRequest :: bool

record ChatRequestModel = IChatExchange +
  message :: IParsedChatRequest
  variableData :: "IChatRequestVariableEntry list"
  attempt :: nat
  confirmation :: "string option"
  locationData :: "string option"
  attachedContext :: "IChatRequestVariableEntry list option"

text \<open>
  \<open>changeFired\<close> counts the firings of the response's own \<open>onDidChange\<close>; the constructor
  forwards every \<open>onDidChangeValue\<close> of the inner \<open>Response\<close> to it.
\<close>

record ChatResponseModel = IChatExchange +
  response :: Response
  agent :: "string option"
  slashCommand :: "string option"
  isComplete :: bool
  isCanceled :: bool
  vote :: "ChatAgentVoteDirection option"
  voteDownReason :: "string option"
  result :: "IChatAgentResult option"
  followups :: "string list option"
  usedContext :: "string option"
  contentReferences :: "string list"
  codeCitations :: "string list"
  isStale :: bool
  hasSideEffects :: bool
  changeFired :: nat

datatype IChatExchangeModel = RequestModel ChatRequestModel | ResponseModel ChatResponseModel

fun isRequestModel :: "IChatExchangeModel \<Rightarrow> bool" where
  "isRequestModel (RequestModel _) = True"
| "isRequestModel (ResponseModel _) = False"

fun isResponseModel :: "IChatExchangeModel \<Rightarrow> bool" where
  "isResponseModel (ResponseModel _) = True"
| "isResponseModel (RequestModel _) = False"

fun idOf :: "IChatExchangeModel \<Rightarrow> string" where
  "idOf (RequestModel r) = id' r"
| "idOf (ResponseModel r) = id' r"

fun exchangeShouldBeRemovedOnSend :: "IChatExchangeModel \<Rightarrow> bool" where
  "exchangeShouldBeRemovedOnSend (RequestModel r) = shouldBeRemovedOnSend r"
| "exchangeShouldBeRemovedOnSend (ResponseModel r) = shouldBeRemovedOnSend r"

text \<open>The decimal digits of a number, as JavaScript's string concatenation prints it.\<close>

fun numberToString :: "nat \<Rightarrow> string" where
  "numberToString n =
     (if n < 10 then [''0123456789'' ! n]
      else numberToString (n div 10) @ [''0123456789'' ! (n mod 10)])"

declare numberToString.simps [simp del]

record IdCounters =
  requestNextId :: nat
  responseNextId :: nat

text \<open>
  The constructor of \<open>ChatRequestModel\<close>; \<open>attempt\<close> defaults to 0 and
  \<open>isCompleteAddedRequest\<close> to false when the argument is \<open>undefined\<close>.
\<close>

definition newChatRequestModel ::
  "IdCounters \<Rightarrow> IParsedChatRequest \<Rightarrow> IChatRequestVariableEntry list \<Rightarrow> nat option \<Rightarrow>
   string option \<Rightarrow> string option \<Rightarrow> IChatRequestVariableEntry list option \<Rightarrow> bool option \<Rightarrow>
   ChatRequestModel \<times> IdCounters" where
  "newChatRequestModel c msg vars att conf loc attached complAdded =
     (\<lparr> id' = ''request_'' @ numberToString (requestNextId c),
        shouldBeRemovedOnSend = False,
        isCompleteAddedRequest = (case complAdded of None \<Rightarrow> False | Some b \<Rightarrow> b),
        message = msg,
        variableData = vars,
        attempt = (case att of None \<Rightarrow> 0 | Some a \<Rightarrow> a),
        confirmation = conf,
        locationData = loc,
        attachedContext = attached \<rparr>,
      c\<lparr>requestNextId := Suc (requestNextId c)\<rparr>)"

text \<open>
  What the constructor of \<open>Response\<close> receives: markdown strings, content parts that
  carry a \<open>kind\<close>, and bare file-tree data. These are also the items of a persisted
  response.
\<close>

datatype ResponseValue =
    ValueMarkdown IMarkdownString
  | ValueKind IChatProgressResponseContent
  | ValueTree string

fun toResponsePart :: "ResponseValue \<Rightarrow> IChatProgressResponseContent" where
  "toResponsePart (ValueMarkdown v) = MarkdownContent v"
| "toResponsePart (ValueKind v) = v"
| "toResponsePart (ValueTree v) = TreeData v"

definition newResponse :: "ResponseValue list \<Rightarrow> Response" where
  "newResponse v = updateRepr True
     \<lparr> responseParts = map toResponsePart v, citations = [], changeValueFired = 0 \<rparr>"

text \<open>
  The constructor of \<open>ChatResponseModel\<close>, called with an array. \<open>_isComplete\<close> and
  \<open>_isCanceled\<close> default to false; a response created with content is stale.
\<close>

definition newChatResponseModel ::
  "IdCounters \<Rightarrow> ResponseValue list \<Rightarrow> string option \<Rightarrow> string option \<Rightarrow> bool option \<Rightarrow>
   bool option \<Rightarrow> ChatAgentVoteDirection option \<Rightarrow> string option \<Rightarrow> IChatAgentResult option \<Rightarrow>
   string list option \<Rightarrow> bool option \<Rightarrow> ChatResponseModel \<times> IdCounters" where
  "newChatResponseModel c v ag cmd complete canceled vt reason res fups complAdded =
     (\<lparr> id' = ''response_'' @ numberToString (responseNextId c),
        shouldBeRemovedOnSend = False,
        isCompleteAddedRequest = (case complAdded of None \<Rightarrow> False | Some b \<Rightarrow> b),
        response = newResponse v,
        agent = ag,
        slashCommand = cmd,
        isComplete = (case complete of None \<Rightarrow> False | Some b \<Rightarrow> b),
        isCanceled = (case canceled of None \<Rightarrow> False | Some b \<Rightarrow> b),
        vote = vt,
        voteDownReason = reason,
        result = res,
        followups = fups,
        usedContext = None,
        contentReferences = [],
        codeCitations = [],
        isStale = (length v \<noteq> 0),
        hasSideEffects = False,
        changeFired = 0 \<rparr>,
      c\<lparr>responseNextId := Suc (responseNextId c)\<rparr>)"

definition fireChange :: "ChatResponseModel \<Rightarrow> ChatResponseModel" where
  "fireChange r = r\<lparr>changeFired := Suc (changeFired r)\<rparr>"

text \<open>Runs an operation of the inner \<open>Response\<close> and forwards its change events.\<close>

definition onResponse :: "(Response \<Rightarrow> Response) \<Rightarrow> ChatResponseModel \<Rightarrow> ChatResponseModel" where
  "onResponse f r =
     (let resp = f (response r)
      in r\<lparr>response := resp,
           changeFired := changeFired r + (changeValueFired resp - changeValueFired (response r))\<rparr>)"

definition setShouldBeRemovedOnSend :: "bool \<Rightarrow> ChatResponseModel \<Rightarrow> ChatResponseModel" where
  "setShouldBeRemovedOnSend hidden r = fireChange (r\<lparr>shouldBeRemovedOnSend := hidden\<rparr>)"

definition applyUsedContext :: "string \<Rightarrow> ChatResponseModel \<Rightarrow> ChatResponseModel" where
  "applyUsedContext progress r = r\<lparr>usedContext := Some progress\<rparr>"

definition applyReference :: "string \<Rightarrow> ChatResponseModel \<Rightarrow> ChatResponseModel" where
  "applyReference progress r = fireChange (r\<lparr>contentReferences := contentReferences r @ [progress]\<rparr>)"

definition addCitation :: "string \<Rightarrow> Response \<Rightarrow> Response" where
  "addCitation citation r = updateRepr False (r\<lparr>citations := citations r @ [citation]\<rparr>)"

definition applyCodeCitation :: "string \<Rightarrow> ChatResponseModel \<Rightarrow> ChatResponseModel" where
  "applyCodeCitation progress r =
     fireChange (onResponse (addCitation progress) (r\<lparr>codeCitations := codeCitations r @ [progress]\<rparr>))"

text \<open>\<open>this._result?.errorDetails?.responseIsRedacted\<close>, read for its truthiness.\<close>

definition responseIsRedactedFlag :: "ChatResponseModel \<Rightarrow> bool" where
  "responseIsRedactedFlag r =
     (case result r of
        None \<Rightarrow> False
      | Some res \<Rightarrow> (case errorDetails res of
                      None \<Rightarrow> False
                    | Some d \<Rightarrow> (case responseIsRedacted d of None \<Rightarrow> False | Some b \<Rightarrow> b)))"

text \<open>
  \<open>ChatResponseModel.complete\<close> in its three statements: the conditional clear, the
  assignment of the flag, the change event.
\<close>

definition clearIfRedacted :: "ChatResponseModel \<Rightarrow> ChatResponseModel" where
  "clearIfRedacted r = (if responseIsRedactedFlag r then onResponse clear r else r)"

definition complete :: "ChatResponseModel \<Rightarrow> ChatResponseModel" where
  "complete r = fireChange ((clearIfRedacted r)\<lparr>isComplete := True\<rparr>)"

definition cancel :: "ChatResponseModel \<Rightarrow> ChatResponseModel" where
  "cancel r = fireChange (r\<lparr>isComplete := True, isCanceled := True\<rparr>)"

section \<open>The chat model\<close>

datatype ChatExchangeRemovalReason = Removal | Resend

datatype IChatChangeEvent =
    Initialize
  | AddRequest ChatRequestModel
  | ChangedRequest ChatRequestModel
  | RemoveExchange string ChatExchangeRemovalReason
  | AddResponse ChatResponseModel
  | SetAgent string "string option"
  | Move URI IRange
  | StartPlan
  | SetHidden "string set"

datatype ParseError = UnknownResponse | UnknownExchange

datatype LogEntry =
    IgnoringMalformedSessionData
  | FailedToParseChatData ParseError

text \<open>
  The state of a \<open>ChatModel\<close> and of what it writes to: the exchange list; the
  \<open>lastExchangeComplete\<close> context key (\<open>None\<close> until it is first set); every event fired
  on \<open>onDidChange\<close>, in order, each with the exchange list a listener sees at that
  moment; the errors given to the log service; the ids of the responses whose
  \<open>dispose()\<close> has been called; the two static id counters of the exchange classes.
\<close>

record ChatModel =
  exchanges :: "IChatExchangeModel list"
  sessionId :: string
  creationDate :: nat
  lastMessageDate :: nat
  isImported :: bool
  customTitle :: "string option"
  requesterUsername :: string
  responderUsername :: string
  initialLocation :: "string option"
  lastExchangeComplete :: "bool option"
  didChange :: "(IChatChangeEvent \<times> IChatExchangeModel list) list"
  logged :: "LogEntry list"
  disposed :: "string list"
  counters :: IdCounters

definition fire :: "IChatChangeEvent \<Rightarrow> ChatModel \<Rightarrow> ChatModel" where
  "fire e m = m\<lparr>didChange := didChange m @ [(e, exchanges m)]\<rparr>"

fun setExchangeHidden :: "bool \<Rightarrow> IChatExchangeModel \<Rightarrow> IChatExchangeModel" where
  "setExchangeHidden hidden (RequestModel r) = RequestModel (r\<lparr>shouldBeRemovedOnSend := hidden\<rparr>)"
| "setExchangeHidden hidden (ResponseModel r) = ResponseModel (setShouldBeRemovedOnSend hidden r)"

definition disableRequests :: "string list \<Rightarrow> ChatModel \<Rightarrow> ChatModel" where
  "disableRequests requestIds m =
     (let toHide = set requestIds;
          m1 = m\<lparr>exchanges :=
                   map (\<lambda>exchange. setExchangeHidden (idOf exchange \<in> toHide) exchange)
                     (exchanges m)\<rparr>
      in fire (SetHidden (set requestIds)) m1)"

text \<open>\<open>autoAcceptLastExchange\<close> has an empty body.\<close>

definition autoAcceptLastExchange :: "ChatModel \<Rightarrow> ChatModel" where
  "autoAcceptLastExchange m = m"

text \<open>
  \<open>addRequest\<close>; \<open>now\<close> is the value of \<open>Date.now()\<close>. The response is built with
  \<open>undefined\<close> for its complete and canceled flags, vote, result and followups.
\<close>

definition addRequest ::
  "IParsedChatRequest \<Rightarrow> IChatRequestVariableEntry list \<Rightarrow> nat \<Rightarrow> string option \<Rightarrow> string option \<Rightarrow>
   string option \<Rightarrow> string option \<Rightarrow> IChatRequestVariableEntry list option \<Rightarrow> bool option \<Rightarrow> nat \<Rightarrow>
   ChatModel \<Rightarrow> ChatRequestModel \<times> ChatModel" where
  "addRequest msg vars att chatAgent cmd conf loc attachments complAdded now m0 =
     (let m = autoAcceptLastExchange m0;
          (request, c1) = newChatRequestModel (counters m) msg vars (Some att) conf loc attachments complAdded;
          (resp, c2) = newChatResponseModel c1 [] chatAgent cmd None None None None None None complAdded;
          m1 = m\<lparr>counters := c2,
                 exchanges := exchanges m @ [RequestModel request, ResponseModel resp]\<rparr>;
          m2 = m1\<lparr>lastMessageDate := now\<rparr>;
          m3 = m2\<lparr>lastExchangeComplete := Some False\<rparr>
      in (request, fire (AddRequest request) m3))"

definition addResponse :: "ChatModel \<Rightarrow> ChatResponseModel \<times> ChatModel" where
  "addResponse m =
     (let (resp, c1) = newChatResponseModel (counters m) [] None None None None None None None None None;
          m1 = m\<lparr>counters := c1, exchanges := exchanges m @ [ResponseModel resp]\<rparr>
      in (resp, fire (AddResponse resp) m1))"

text \<open>\<open>findIndex\<close>: the first index whose element satisfies the predicate, \<open>None\<close> for -1.\<close>

fun findIndex :: "('a \<Rightarrow> bool) \<Rightarrow> 'a list \<Rightarrow> nat option" where
  "findIndex p [] = None"
| "findIndex p (x # xs) =
     (if p x then Some 0 else (case findIndex p xs of None \<Rightarrow> None | Some i \<Rightarrow> Some (Suc i)))"

text \<open>\<open>splice(index, 1)\<close>.\<close>

definition splice1 :: "nat \<Rightarrow> 'a list \<Rightarrow> 'a list" where
  "splice1 index xs = take index xs @ drop (Suc index) xs"

definition removeExchange :: "string \<Rightarrow> ChatExchangeRemovalReason \<Rightarrow> ChatModel \<Rightarrow> ChatModel" where
  "removeExchange ident reason m =
     (case findIndex (\<lambda>exchange. idOf exchange = ident) (exchanges m) of
        None \<Rightarrow> m
      | Some index \<Rightarrow>
          (let exchange = exchanges m ! index;
               m1 = fire (RemoveExchange (idOf exchange) reason) m;
               m2 = m1\<lparr>exchanges := splice1 index (exchanges m1)\<rparr>
           in if isResponseModel exchange
              then m2\<lparr>disposed := disposed m2 @ [idOf exchange]\<rparr>
              else m2))"

datatype ModelError = CallSetResponseBeforeCompleteResponse

text \<open>
  \<open>cancelResponse\<close> and \<open>completeResponse\<close> receive the response object; \<open>None\<close> is a
  falsy argument. The object is the one the exchange list holds (when it holds it), so
  its new state is written back there, found by its id, and is also given back beside the
  model.
\<close>

definition storeResponse :: "ChatResponseModel \<Rightarrow> ChatModel \<Rightarrow> ChatModel" where
  "storeResponse r m =
     m\<lparr>exchanges :=
         map (\<lambda>exchange. if isResponseModel exchange \<and> idOf exchange = id' r
                          then ResponseModel r else exchange)
           (exchanges m)\<rparr>"

definition cancelResponse :: "ChatResponseModel option \<Rightarrow> ChatModel \<Rightarrow> ChatResponseModel option \<times> ChatModel" where
  "cancelResponse resp m =
     (case resp of None \<Rightarrow> (None, m) | Some r \<Rightarrow> (Some (cancel r), storeResponse (cancel r) m))"

definition completeResponse ::
  "ChatResponseModel option \<Rightarrow> ChatModel \<Rightarrow> ModelError + (ChatResponseModel \<times> ChatModel)" where
  "completeResponse resp m =
     (case resp of
        None \<Rightarrow> Inl CallSetResponseBeforeCompleteResponse
      | Some r \<Rightarrow>
          (let m1 = storeResponse (complete r) m
           in Inr (complete r, m1\<lparr>lastExchangeComplete := Some True\<rparr>)))"

section \<open>Persisted sessions\<close>

text \<open>
  A persisted variable is in the current format or in the old one (an optional id, a
  name and a \<open>values\<close> array, of which the first value is kept).
\<close>

datatype SerializedVariable =
    CurrentVariable IChatRequestVariableEntry
  | OldVariable "string option" string "string list"

datatype SerializedMessage = OldMessage string | ParsedMessage IParsedChatRequest

text \<open>
  \<open>variableData\<close> is \<open>None\<close> when it is missing or its \<open>variables\<close> is not an array;
  \<open>isHidden\<close> is \<open>None\<close> when the record has no such field.
\<close>

record ISerializableChatRequestData =
  serMessage :: SerializedMessage
  serVariableData :: "SerializedVariable list option"
  serIsHidden :: "bool option"

text \<open>
  A persisted agent: its data, and whether the record has the \<open>metadata\<close> key of the
  new format. \<open>responseErrorDetails\<close> is the old name of the result's error details:
  \<open>None\<close> when the key is absent, \<open>Some None\<close> when it is there with no value.
\<close>

record ISerializableChatResponseData =
  serResponse :: "ResponseValue list option"
  serAgent :: "(string \<times> bool) option"
  serSlashCommand :: "string option"
  serResult :: "IChatAgentResult option"
  serResponseErrorDetails :: "IChatResponseErrorDetails option option"
  serFollowups :: "string list option"
  serIsCanceled :: "bool option"
  serVote :: "ChatAgentVoteDirection option"
  serVoteDownReason :: "string option"
  serUsedContext :: "string option"
  serContentReferences :: "string list option"
  serCodeCitations :: "string list option"
  respIsHidden :: "bool option"

text \<open>
  A persisted exchange record: \<open>type\<close> is \<open>'request'\<close>, or \<open>'response'\<close>, or anything
  else (the record's \<open>type\<close> as text, if it has one).
\<close>

datatype ISerializableExchange =
    SerializedRequest ISerializableChatRequestData
  | SerializedResponse ISerializableChatResponseData
  | SerializedOther "string option"

text \<open>The persisted session; \<open>serExchanges\<close> is \<open>None\<close> when \<open>exchanges\<close> is not an array.\<close>

record IExportableChatData =
  serRequesterUsername :: string
  serResponderUsername :: string
  serInitialLocation :: "string option"
  serExchanges :: "ISerializableExchange list option"

record ISerializableChatData = IExportableChatData +
  serSessionId :: string
  serCreationDate :: nat
  serIsImported :: bool
  serLastMessageDate :: nat
  serCustomTitle :: "string option"

fun reviveVariable :: "SerializedVariable \<Rightarrow> IChatRequestVariableEntry" where
  "reviveVariable (OldVariable i n vals) =
     \<lparr> entryId = (case i of None \<Rightarrow> [] | Some j \<Rightarrow> j),
       entryName = n,
       entryValue = (case vals of [] \<Rightarrow> None | v # _ \<Rightarrow> Some v) \<rparr>"
| "reviveVariable (CurrentVariable v) = v"

definition reviveVariableData :: "SerializedVariable list option \<Rightarrow> IChatRequestVariableEntry list" where
  "reviveVariableData raw = (case raw of None \<Rightarrow> [] | Some vars \<Rightarrow> map reviveVariable vars)"

definition getParsedRequestFromString :: "string \<Rightarrow> IParsedChatRequest" where
  "getParsedRequestFromString msg =
     \<lparr> text = msg,
       parts = [\<lparr> partKind = ''text'', partRange = (0, length msg),
                  editorRange = \<lparr> startLineNumber = 1, startColumn = 1, endLineNumber = 1, endColumn = 1 \<rparr>,
                  partText = msg \<rparr>] \<rparr>"

text \<open>
  Modelled from the spec: \<open>reviveParsedChatRequest\<close> of \<open>aideAgentParserTypes.js\<close>, which
  is not among the sources. By the spec a persisted request keeps its message text and
  parsed form; the function rebuilds the part objects from their JSON, and on the data
  kept here it changes nothing.
\<close>

definition reviveParsedChatRequest :: "IParsedChatRequest \<Rightarrow> IParsedChatRequest" where
  "reviveParsedChatRequest msg = msg"

text \<open>
  The callback given to \<open>exchanges.map\<close> in \<open>_deserialize\<close>. \<open>Inl\<close> is a thrown error.
  The request branch builds the request and sets its flag, and has no \<open>return\<close>:
  control leaves the \<open>if\<close> and reaches the final \<open>throw\<close>. The id counters advance with
  every object that is constructed, also when the callback throws afterwards.
\<close>

definition deserializeResponse ::
  "IdCounters \<Rightarrow> ISerializableChatResponseData \<Rightarrow> (ParseError + IChatExchangeModel) \<times> IdCounters" where
  "deserializeResponse c raw =
     (if serResponse raw \<noteq> None \<or> serResult raw \<noteq> None \<or>
         (case serResponseErrorDetails raw of Some (Some _) \<Rightarrow> True | _ \<Rightarrow> False)
      then
        (let ag = (case serAgent raw of
                     Some (a, hasMetadata) \<Rightarrow> (if hasMetadata then Some a else None)
                   | None \<Rightarrow> None);
             res = (case serResponseErrorDetails raw of
                      Some d \<Rightarrow> Some \<lparr> errorDetails = d \<rparr>
                    | None \<Rightarrow> serResult raw);
             v = (case serResponse raw of
                    Some items \<Rightarrow> items
                  | None \<Rightarrow> [ValueMarkdown (MarkdownString [])]);
             (r0, c1) = newChatResponseModel c v ag (serSlashCommand raw) (Some True) (serIsCanceled raw)
                          (serVote raw) (serVoteDownReason raw) res (serFollowups raw) None;
             r1 = (case serUsedContext raw of Some u \<Rightarrow> applyUsedContext u r0 | None \<Rightarrow> r0);
             r2 = setShouldBeRemovedOnSend (case respIsHidden raw of Some b \<Rightarrow> b | None \<Rightarrow> False) r1;
             r3 = foldl (\<lambda>r ref. applyReference ref r) r2
                    (case serContentReferences raw of Some refs \<Rightarrow> refs | None \<Rightarrow> []);
             r4 = foldl (\<lambda>r cit. applyCodeCitation cit r) r3
                    (case serCodeCitations raw of Some cits \<Rightarrow> cits | None \<Rightarrow> [])
         in (Inr (ResponseModel r4), c1))
      else (Inl UnknownResponse, c))"

fun deserializeExchange ::
  "IdCounters \<Rightarrow> ISerializableExchange \<Rightarrow> (ParseError + IChatExchangeModel) \<times> IdCounters" where
  "deserializeExchange c (SerializedRequest raw) =
     (let parsedRequest = (case serMessage raw of
                             OldMessage s \<Rightarrow> getParsedRequestFromString s
                           | ParsedMessage p \<Rightarrow> reviveParsedChatRequest p);
          vars = reviveVariableData (serVariableData raw);
          (request0, c1) = newChatRequestModel c parsedRequest vars None None None None None;
          request = request0\<lparr>shouldBeRemovedOnSend := (case serIsHidden raw of Some b \<Rightarrow> b | None \<Rightarrow> False)\<rparr>
      in (Inl UnknownExchange, c1))"
| "deserializeExchange c (SerializedResponse raw) = deserializeResponse c raw"
| "deserializeExchange c (SerializedOther _) = (Inl UnknownExchange, c)"

text \<open>\<open>Array.prototype.map\<close> with that callback: the first throw ends the whole map.\<close>

fun deserializeExchanges ::
  "IdCounters \<Rightarrow> ISerializableExchange list \<Rightarrow> (ParseError + IChatExchangeModel list) \<times> IdCounters" where
  "deserializeExchanges c [] = (Inr [], c)"
| "deserializeExchanges c (raw # rest) =
     (case deserializeExchange c raw of
        (Inl e, c1) \<Rightarrow> (Inl e, c1)
      | (Inr x, c1) \<Rightarrow>
          (case deserializeExchanges c1 rest of
             (Inl e, c2) \<Rightarrow> (Inl e, c2)
           | (Inr xs, c2) \<Rightarrow> (Inr (x # xs), c2)))"

text \<open>
  \<open>_deserialize\<close>: the result is the exchange list, with the log entries written and
  the id counters after the call. The \<open>try\<close>/\<open>catch\<close> is around the whole map.
\<close>

definition deserialize ::
  "IdCounters \<Rightarrow> ISerializableExchange list option \<Rightarrow> IChatExchangeModel list \<times> LogEntry list \<times> IdCounters" where
  "deserialize c exs =
     (case exs of
        None \<Rightarrow> ([], [IgnoringMalformedSessionData], c)
      | Some raws \<Rightarrow>
          (case deserializeExchanges c raws of
             (Inr xs, c1) \<Rightarrow> (xs, [], c1)
           | (Inl e, c1) \<Rightarrow> ([], [FailedToParseChatData e], c1)))"

text \<open>
  \<open>isSerializableSessionData\<close> on data that has a session id and a creation date: what
  is left to test is \<open>obj.exchanges.every(...)\<close>, a \<open>TypeError\<close> when \<open>exchanges\<close> is
  not an array. \<open>isIUsedContext\<close> (of \<open>aideAgentService.js\<close>, not among the sources) is a
  parameter.
\<close>

datatype JsError = TypeError

definition isSerializableSessionData :: "(string \<Rightarrow> bool) \<Rightarrow> ISerializableChatData \<Rightarrow> JsError + bool" where
  "isSerializableSessionData isIUsedContext data =
     (case serExchanges data of
        None \<Rightarrow> Inl TypeError
      | Some raws \<Rightarrow>
          Inr (list_all
                 (\<lambda>exchange. case exchange of
                     SerializedRequest _ \<Rightarrow> True
                   | SerializedResponse raw \<Rightarrow>
                       (case serUsedContext raw of None \<Rightarrow> True | Some u \<Rightarrow> isIUsedContext u)
                   | SerializedOther _ \<Rightarrow> False)
                 raws))"

text \<open>
  The constructor of \<open>ChatModel\<close> over persisted data, with no default agent registered
  (the user names then come from the data). \<open>uuid\<close> is the value of \<open>generateUuid()\<close>,
  \<open>now\<close> that of \<open>Date.now()\<close>, \<open>c\<close> the state of the static id counters at the call. An
  empty session id and a zero date are falsy and give way to \<open>uuid\<close> and \<open>now\<close>. The
  exchange list is \<open>this._deserialize(initialData)\<close>.
\<close>

definition newChatModel ::
  "(string \<Rightarrow> bool) \<Rightarrow> string \<Rightarrow> nat \<Rightarrow> IdCounters \<Rightarrow> ISerializableChatData \<Rightarrow> JsError + ChatModel" where
  "newChatModel isIUsedContext uuid now c initialData =
     (case isSerializableSessionData isIUsedContext initialData of
        Inl e \<Rightarrow> Inl e
      | Inr serializable \<Rightarrow>
          (let (xs, logs, c1) = deserialize c (serExchanges initialData);
               created = (if serializable \<and> serCreationDate initialData \<noteq> 0
                          then serCreationDate initialData else now)
           in Inr \<lparr> exchanges = xs,
                    sessionId = (if serializable \<and> serSessionId initialData \<noteq> []
                                 then serSessionId initialData else uuid),
                    creationDate = created,
                    lastMessageDate = (if serializable \<and> serLastMessageDate initialData \<noteq> 0
                                       then serLastMessageDate initialData else created),
                    isImported = (if serializable then serIsImported initialData else True),
                    customTitle = (if serializable then serCustomTitle initialData else None),
                    requesterUsername = serRequesterUsername initialData,
                    responderUsername = serResponderUsername initialData,
                    initialLocation = serInitialLocation initialData,
                    lastExchangeComplete = None,
                    didChange = [],
                    logged = logs,
                    disposed = [],
                    counters = c1 \<rparr>))"

fun exportResponsePart :: "IChatProgressResponseContent \<Rightarrow> ResponseValue" where
  "exportResponsePart (TreeData t) = ValueTree t"
| "exportResponsePart (MarkdownContent c) = ValueMarkdown c"
| "exportResponsePart item = ValueKind item"

fun exportExchange :: "IChatExchangeModel \<Rightarrow> ISerializableExchange" where
  "exportExchange (RequestModel r) =
     SerializedRequest
       \<lparr> serMessage = ParsedMessage (message r),
         serVariableData = Some (map CurrentVariable (variableData r)),
         serIsHidden = Some (shouldBeRemovedOnSend r) \<rparr>"
| "exportExchange (ResponseModel r) =
     SerializedResponse
       \<lparr> serResponse = Some (map exportResponsePart (responseParts (response r))),
         serAgent = (case agent r of Some a \<Rightarrow> Some (a, True) | None \<Rightarrow> None),
         serSlashCommand = slashCommand r,
         serResult = result r,
         serResponseErrorDetails = None,
         serFollowups = followups r,
         serIsCanceled = Some (isCanceled r),
         serVote = vote r,
         serVoteDownReason = voteDownReason r,
         serUsedContext = usedContext r,
         serContentReferences = Some (contentReferences r),
         serCodeCitations = Some (codeCitations r),
         respIsHidden = Some (shouldBeRemovedOnSend r) \<rparr>"

definition toExport :: "ChatModel \<Rightarrow> IExportableChatData" where
  "toExport m =
     \<lparr> serRequesterUsername = requesterUsername m,
       serResponderUsername = responderUsername m,
       serInitialLocation = initialLocation m,
       serExchanges = Some (map exportExchange (exchanges m)) \<rparr>"

definition toJSON :: "ChatModel \<Rightarrow> ISerializableChatData" where
  "toJSON m =
     IExportableChatData.extend (toExport m)
       \<lparr> serSessionId = sessionId m,
         serCreationDate = creationDate m,
         serIsImported = isImported m,
         serLastMessageDate = lastMessageDate m,
         serCustomTitle = customTitle m \<rparr>"

section \<open>The agent event dispatcher\<close>

text \<open>
  An entry of the response stream collection (\<open>AideAgentEventSenderResponse\<close>): the
  exchange id it was opened for; its stream is written to through the calls below.
\<close>

record AideAgentEventSenderResponse =
  exchangeId :: string

datatype StreamCall =
    StageCall string
  | MarkdownCall string
  | ReferenceCall string
  | ToolTypeErrorCall string
  | StepCall nat string
  | CloseCall

text \<open>
  The state of \<open>AideAgentSessionProvider\<close> that the event loop reads and writes. The two
  JavaScript \<open>Map\<close>s keep their insertion order. \<open>streamCalls\<close> lists, in order, every
  call the event loop makes on a response stream, with the key under which the stream
  was found.
\<close>

record AideAgentSessionProvider =
  responseStreamCollection :: "(string \<times> AideAgentEventSenderResponse) list"
  lastThinkingText :: "(string \<times> string) list"
  startedStreams :: "string set"
  streamCalls :: "(string \<times> StreamCall) list"

definition getKey :: "string \<Rightarrow> string \<Rightarrow> string" where
  "getKey session exchange = session @ ''-'' @ exchange"

definition addResponseStream ::
  "string \<Rightarrow> string \<Rightarrow> AideAgentEventSenderResponse \<Rightarrow> AideAgentSessionProvider \<Rightarrow> AideAgentSessionProvider" where
  "addResponseStream session exchange responseStream p =
     p\<lparr>responseStreamCollection :=
         AList.update (getKey session exchange) responseStream (responseStreamCollection p)\<rparr>"

definition getResponseStream ::
  "string \<Rightarrow> string \<Rightarrow> AideAgentSessionProvider \<Rightarrow> AideAgentEventSenderResponse option" where
  "getResponseStream session exchange p =
     map_of (responseStreamCollection p) (getKey session exchange)"

definition removeResponseStream :: "string \<Rightarrow> string \<Rightarrow> AideAgentSessionProvider \<Rightarrow> AideAgentSessionProvider" where
  "removeResponseStream session exchange p =
     p\<lparr>responseStreamCollection :=
         AList.delete (getKey session exchange) (responseStreamCollection p)\<rparr>"

definition getAllResponseStreams :: "AideAgentSessionProvider \<Rightarrow> AideAgentEventSenderResponse list" where
  "getAllResponseStreams p = map snd (responseStreamCollection p)"

text \<open>
  \<open>newExchangeIdForSession\<close> registers the response that \<open>initResponse\<close> returned under
  the session id and the response's own exchange id.
\<close>

definition newExchangeIdForSession ::
  "string \<Rightarrow> AideAgentEventSenderResponse option \<Rightarrow> AideAgentSessionProvider \<Rightarrow>
   string option \<times> AideAgentSessionProvider" where
  "newExchangeIdForSession session resp p =
     (case resp of
        None \<Rightarrow> (None, p)
      | Some r \<Rightarrow> (Some (exchangeId r), addResponseStream session (exchangeId r) r p))"

text \<open>
  A call \<open>responseStream?.stream.f(...)\<close> on the stream looked up for the pair: nothing
  happens when no stream is open for it.
\<close>

definition callStream :: "string \<Rightarrow> string \<Rightarrow> StreamCall \<Rightarrow> AideAgentSessionProvider \<Rightarrow> AideAgentSessionProvider" where
  "callStream session exchange call p =
     (case getResponseStream session exchange p of
        None \<Rightarrow> p
      | Some _ \<Rightarrow> p\<lparr>streamCalls := streamCalls p @ [(getKey session exchange, call)]\<rparr>)"

definition closeAndRemoveResponseStream :: "string \<Rightarrow> string \<Rightarrow> AideAgentSessionProvider \<Rightarrow> AideAgentSessionProvider" where
  "closeAndRemoveResponseStream session exchange p =
     (let p1 = callStream session exchange CloseCall p;
          p2 = removeResponseStream session exchange p1
      in p2\<lparr>lastThinkingText := AList.delete (getKey session exchange) (lastThinkingText p2)\<rparr>)"

text \<open>
  The loop \<open>for (const stream of openStreams) closeAndRemoveResponseStream(sessionId,
  stream.exchangeId)\<close> over the streams that were open when it started.
\<close>

definition closeAllResponseStreams :: "string \<Rightarrow> AideAgentSessionProvider \<Rightarrow> AideAgentSessionProvider" where
  "closeAllResponseStreams session p =
     foldl (\<lambda>q stream. closeAndRemoveResponseStream session (exchangeId stream) q) p
       (getAllResponseStreams p)"

text \<open>
  The events of the sidecar, by the keys the loop tests (their type declarations, in
  \<open>server/types\<close>, are not among the sources). A path or a delta that the loop tests for
  truthiness is a string, empty when it is missing; \<open>ChatEvent\<close>'s delta is \<open>None\<close> when
  it is \<open>null\<close>. An \<open>Edit\<close> sub-step carries the delta of its \<open>ThinkingForEdit\<close>, which
  the loop reads without a test for its presence.
\<close>

datatype ToolInputPartial = AttemptCompletion | OpenFileInput string | OtherToolInput

datatype FrameworkEvent =
    OpenFile string
  | ToolThinking string
  | ToolParameterFound string string
  | ToolUseDetected "ToolInputPartial option"
  | ToolTypeErrorEvent string
  | OtherFrameworkEvent

datatype SymbolEventSubStepRequest = GoToDefinition | Edit string | Probe | OtherSubStep

datatype PlanEvent = PlanStepTitleAdded nat string | PlanStepDescriptionUpdate nat string

datatype ExchangeEvent =
    PlansExchangeState string
  | EditsExchangeState string
  | ExecutionState string
  | FinishedExchange
  | OtherExchangeEvent

datatype UIEvent =
    FrameworkEvent FrameworkEvent
  | SymbolEvent
  | SymbolEventSubStep string string SymbolEventSubStepRequest
  | RequestEvent
  | EditRequestFinished
  | ChatEvent "string option"
  | PlanEvent PlanEvent
  | ExchangeEvent ExchangeEvent
  | OtherUIEvent

datatype SideCarAgentEvent =
    KeepAlive
  | SessionStarted
  | Done
  | UIEventWithId string string UIEvent

datatype LoopControl = Continue | Return

definition handleToolParameterFound ::
  "string \<Rightarrow> string \<Rightarrow> string \<Rightarrow> string \<Rightarrow> AideAgentSessionProvider \<Rightarrow> AideAgentSessionProvider" where
  "handleToolParameterFound session exchange fieldName delta p =
     (if fieldName = ''fs_file_path'' \<or> fieldName = ''directory_path''
      then callStream session exchange (ReferenceCall delta) p
      else if fieldName = ''instruction'' \<or> fieldName = ''result'' \<or> fieldName = ''question''
      then callStream session exchange (MarkdownCall (delta @ ''\<newline>'')) p
      else if fieldName = ''command''
      then callStream session exchange (MarkdownCall (''Running command: `'' @ delta @ ''`\<newline>'')) p
      else if fieldName = ''regex_pattern''
      then callStream session exchange
             (MarkdownCall (''\<newline>Searching the codebase: `'' @ delta @ ''`\<newline>'')) p
      else if fieldName = ''file_pattern''
      then callStream session exchange
             (MarkdownCall (''\<newline>Looking for files: `'' @ delta @ ''`\<newline>'')) p
      else p)"

definition handleToolThinking ::
  "string \<Rightarrow> string \<Rightarrow> string \<Rightarrow> AideAgentSessionProvider \<Rightarrow> AideAgentSessionProvider" where
  "handleToolThinking session exchange currentText p =
     (let key = getKey session exchange;
          lastText = (case map_of (lastThinkingText p) key of None \<Rightarrow> [] | Some t \<Rightarrow> t);
          delta = drop (length lastText) currentText;
          p1 = (if delta \<noteq> [] then callStream session exchange (MarkdownCall (delta @ ''\<newline>'')) p
                else p)
      in p1\<lparr>lastThinkingText := AList.update key currentText (lastThinkingText p1)\<rparr>)"

fun handleFrameworkEvent ::
  "string \<Rightarrow> string \<Rightarrow> FrameworkEvent \<Rightarrow> AideAgentSessionProvider \<Rightarrow> LoopControl \<times> AideAgentSessionProvider" where
  "handleFrameworkEvent session exchange (OpenFile filePath) p =
     (Continue, if filePath \<noteq> [] then callStream session exchange (ReferenceCall filePath) p else p)"
| "handleFrameworkEvent session exchange (ToolThinking currentText) p =
     (Continue, handleToolThinking session exchange currentText p)"
| "handleFrameworkEvent session exchange (ToolParameterFound fieldName delta) p =
     (Continue, handleToolParameterFound session exchange fieldName delta p)"
| "handleFrameworkEvent session exchange (ToolUseDetected None) p = (Continue, p)"
| "handleFrameworkEvent session exchange (ToolUseDetected (Some AttemptCompletion)) p =
     (Return, closeAllResponseStreams session (callStream session exchange (StageCall ''Complete'') p))"
| "handleFrameworkEvent session exchange (ToolUseDetected (Some (OpenFileInput filePath))) p =
     (Continue, if filePath \<noteq> [] then callStream session exchange (ReferenceCall filePath) p else p)"
| "handleFrameworkEvent session exchange (ToolUseDetected (Some OtherToolInput)) p = (Continue, p)"
| "handleFrameworkEvent session exchange (ToolTypeErrorEvent errorString) p =
     (Return, closeAllResponseStreams session
                (callStream session exchange (StageCall ''Error'')
                  (callStream session exchange (ToolTypeErrorCall errorString) p)))"
| "handleFrameworkEvent session exchange OtherFrameworkEvent p = (Continue, p)"

fun handleExchangeEvent ::
  "string \<Rightarrow> string \<Rightarrow> ExchangeEvent \<Rightarrow> AideAgentSessionProvider \<Rightarrow> LoopControl \<times> AideAgentSessionProvider" where
  "handleExchangeEvent session exchange (PlansExchangeState editsState) p =
     (if editsState = ''Loading'' then (Continue, callStream session exchange (StageCall ''Planning'') p)
      else if editsState = ''Cancelled'' then (Continue, callStream session exchange (StageCall ''Cancelled'') p)
      else if editsState = ''MarkedComplete''
      then (Return, closeAndRemoveResponseStream session exchange
                      (callStream session exchange (StageCall ''Complete'') p))
      else if editsState = ''Accepted''
      then (Continue, callStream session exchange (StageCall ''Accepted'') p)
      else (Continue, p))"
| "handleExchangeEvent session exchange (EditsExchangeState editsState) p =
     (if editsState = ''Loading'' then (Continue, callStream session exchange (StageCall ''Editing'') p)
      else if editsState = ''Cancelled'' then (Continue, callStream session exchange (StageCall ''Cancelled'') p)
      else if editsState = ''MarkedComplete''
      then (Return, closeAndRemoveResponseStream session exchange
                      (callStream session exchange (StageCall ''Complete'') p))
      else (Continue, p))"
| "handleExchangeEvent session exchange (ExecutionState executionState) p =
     (Continue,
      if executionState = ''Inference'' then callStream session exchange (StageCall ''Reasoning'') p
      else if executionState = ''InReview'' then callStream session exchange (StageCall ''Review'') p
      else if executionState = ''Cancelled'' then callStream session exchange (StageCall ''Cancelled'') p
      else p)"
| "handleExchangeEvent session exchange FinishedExchange p =
     (Continue, closeAndRemoveResponseStream session exchange
                  (callStream session exchange (StageCall ''Complete'') p))"
| "handleExchangeEvent session exchange OtherExchangeEvent p = (Continue, p)"

fun handleUIEvent ::
  "string \<Rightarrow> string \<Rightarrow> UIEvent \<Rightarrow> AideAgentSessionProvider \<Rightarrow> LoopControl \<times> AideAgentSessionProvider" where
  "handleUIEvent session exchange (FrameworkEvent e) p = handleFrameworkEvent session exchange e p"
| "handleUIEvent session exchange SymbolEvent p = (Continue, p)"
| "handleUIEvent session exchange (SymbolEventSubStep symbolName fsFilePath (Edit delta)) p =
     (Continue,
      if fsFilePath = [] \<and> symbolName = [] then p
      else if delta \<noteq> [] then callStream session exchange (MarkdownCall delta) p
      else p)"
| "handleUIEvent session exchange (SymbolEventSubStep symbolName fsFilePath _) p = (Continue, p)"
| "handleUIEvent session exchange RequestEvent p = (Continue, p)"
| "handleUIEvent session exchange EditRequestFinished p = (Continue, p)"
| "handleUIEvent session exchange (ChatEvent delta) p =
     (Continue, case delta of None \<Rightarrow> p | Some d \<Rightarrow> callStream session exchange (MarkdownCall d) p)"
| "handleUIEvent session exchange (PlanEvent (PlanStepTitleAdded index title)) p =
     (Continue, callStream session exchange (StepCall index (''### '' @ title))
                  (callStream session exchange (StageCall ''Planning'') p))"
| "handleUIEvent session exchange (PlanEvent (PlanStepDescriptionUpdate index delta)) p =
     (Continue, callStream session exchange (StepCall index (''\<newline>'' @ delta)) p)"
| "handleUIEvent session exchange (ExchangeEvent e) p = handleExchangeEvent session exchange e p"
| "handleUIEvent session exchange OtherUIEvent p = (Continue, p)"

text \<open>
  One iteration of the \<open>for await\<close> loop of \<open>reportAgentEventsToChat\<close>: the three
  sentinels and an event without an open stream are skipped; the first event of a key
  sends the stage \<open>Loading...\<close> and records the key in \<open>startedStreams\<close>.
\<close>

fun reportAgentEvent :: "SideCarAgentEvent \<Rightarrow> AideAgentSessionProvider \<Rightarrow> LoopControl \<times> AideAgentSessionProvider" where
  "reportAgentEvent KeepAlive p = (Continue, p)"
| "reportAgentEvent SessionStarted p = (Continue, p)"
| "reportAgentEvent Done p = (Continue, p)"
| "reportAgentEvent (UIEventWithId session exchange e) p =
     (case getResponseStream session exchange p of
        None \<Rightarrow> (Continue, p)
      | Some _ \<Rightarrow>
          (let key = getKey session exchange;
               p1 = (if key \<notin> startedStreams p
                     then (callStream session exchange (StageCall ''Loading...'') p)
                            \<lparr>startedStreams := insert key (startedStreams p)\<rparr>
                     else p)
           in handleUIEvent session exchange e p1))"

text \<open>The loop over the events of one stream; a \<open>return\<close> leaves the rest unread.\<close>

fun reportAgentEventsToChat :: "SideCarAgentEvent list \<Rightarrow> AideAgentSessionProvider \<Rightarrow> AideAgentSessionProvider" where
  "reportAgentEventsToChat [] p = p"
| "reportAgentEventsToChat (event # rest) p =
     (case reportAgentEvent event p of
        (Return, p1) \<Rightarrow> p1
      | (Continue, p1) \<Rightarrow> reportAgentEventsToChat rest p1)"

section \<open>Observations used in the statements\<close>

text \<open>The test \<open>candidate.kind === 'textEditGroup'\<close>.\<close>

fun isTextEditGroup :: "IChatProgressResponseContent \<Rightarrow> bool" where
  "isTextEditGroup (TextEditGroup _ _ _ _) = True"
| "isTextEditGroup _ = False"

text \<open>
  A sequence of \<open>updateContent\<close> calls with text-edit fragments, each given as its URI,
  its edits, its \<open>done\<close> flag and the \<open>quiet\<close> argument of the call.
\<close>

fun applyTextEdits :: "Response \<Rightarrow> (URI \<times> TextEdit list \<times> bool option \<times> bool) list \<Rightarrow> Response" where
  "applyTextEdits r [] = r"
| "applyTextEdits r ((uri, edits, done, quiet) # rest) =
     applyTextEdits (updateContent r (TextEditProgress uri edits done) quiet) rest"

text \<open>The URIs of the text-edit groups of a part list, in order.\<close>

fun groupUris :: "IChatProgressResponseContent list \<Rightarrow> URI list" where
  "groupUris [] = []"
| "groupUris (TextEditGroup u _ _ _ # ps) = u # groupUris ps"
| "groupUris (_ # ps) = groupUris ps"

text \<open>The batches, state and \<open>done\<close> flag of the first group for a URI.\<close>

fun groupOf :: "URI \<Rightarrow> IChatProgressResponseContent list \<Rightarrow> (TextEdit list list \<times> IChatTextEditGroupState option \<times> bool option) option" where
  "groupOf u [] = None"
| "groupOf u (TextEditGroup v es st d # ps) = (if v = u then Some (es, st, d) else groupOf u ps)"
| "groupOf u (_ # ps) = groupOf u ps"

text \<open>Sample data.\<close>

definition uriA :: URI where
  "uriA = \<lparr> scheme = ''file'', authority = [], path = ''/foo.ts'', query = [], fragment = [] \<rparr>"

definition uriB :: URI where
  "uriB = \<lparr> scheme = ''file'', authority = [], path = ''/bar.ts'', query = [], fragment = [] \<rparr>"

definition edit1 :: TextEdit where
  "edit1 = \<lparr> range = \<lparr> startLineNumber = 1, startColumn = 1, endLineNumber = 1, endColumn = 1 \<rparr>, text = ''a'' \<rparr>"


text \<open>A fresh model, and a session with a hidden request and a response whose result is redacted.\<close>

definition emptyCounters :: IdCounters where
  "emptyCounters = \<lparr> requestNextId = 0, responseNextId = 0 \<rparr>"

definition emptyModel :: ChatModel where
  "emptyModel =
     \<lparr> exchanges = [], sessionId = ''session'', creationDate = 0, lastMessageDate = 0,
       isImported = False, customTitle = None, requesterUsername = ''user'',
       responderUsername = ''Aide'', initialLocation = None, lastExchangeComplete = None,
       didChange = [], logged = [], disposed = [], counters = emptyCounters \<rparr>"

definition fixTheBug :: IParsedChatRequest where
  "fixTheBug = \<lparr> text = ''Fix the bug in foo.ts'', parts = [] \<rparr>"

definition sampleRequest :: ChatRequestModel where
  "sampleRequest =
     \<lparr> id' = ''request_0'', shouldBeRemovedOnSend = True, isCompleteAddedRequest = False,
       message = fixTheBug, variableData = [], attempt = 0, confirmation = None,
       locationData = None, attachedContext = None \<rparr>"

definition emptyResponse :: Response where
  "emptyResponse = \<lparr> responseParts = [], citations = [], changeValueFired = 0 \<rparr>"

definition sampleResponse :: ChatResponseModel where
  "sampleResponse =
     \<lparr> id' = ''response_0'', shouldBeRemovedOnSend = False, isCompleteAddedRequest = False,
       response = emptyResponse\<lparr>responseParts := [MarkdownContent (MarkdownString ''Let me look at this.'')]\<rparr>,
       agent = None, slashCommand = None, isComplete = False, isCanceled = False,
       vote = None, voteDownReason = None,
       result = Some \<lparr> errorDetails = Some \<lparr> IChatResponseErrorDetails.message = ''redacted'', responseIsRedacted = Some True \<rparr> \<rparr>,
       followups = None, usedContext = None, contentReferences = [], codeCitations = [],
       isStale = False, hasSideEffects = False, changeFired = 0 \<rparr>"

definition sampleModel :: ChatModel where
  "sampleModel = emptyModel\<lparr>exchanges := [RequestModel sampleRequest, ResponseModel sampleResponse]\<rparr>"


text \<open>
  A persisted exchange record of unrecognized shape: its \<open>type\<close> is neither
  \<open>'request'\<close> nor \<open>'response'\<close>, or it is a response record with no response, no result
  and no error details.
\<close>

fun unrecognized :: "ISerializableExchange \<Rightarrow> bool" where
  "unrecognized (SerializedOther _) = True"
| "unrecognized (SerializedResponse raw) =
     (serResponse raw = None \<and> serResult raw = None \<and>
      (serResponseErrorDetails raw = None \<or> serResponseErrorDetails raw = Some None))"
| "unrecognized (SerializedRequest _) = False"

text \<open>
  A session with a request, a complete response (one markdown part, merged from two
  fragments, and one text-edit group) and a canceled response; a well-formed persisted
  response.
\<close>

definition completeResponseModel :: ChatResponseModel where
  "completeResponseModel =
     \<lparr> id' = ''response_0'', shouldBeRemovedOnSend = False, isCompleteAddedRequest = False,
       response = emptyResponse\<lparr>responseParts :=
         [MarkdownContent (MarkdownString ''Let me look at this.''),
          TextEditGroup uriA [[edit1]] None (Some True)]\<rparr>,
       agent = None, slashCommand = None, isComplete = True, isCanceled = False,
       vote = None, voteDownReason = None, result = None,
       followups = None, usedContext = None, contentReferences = [], codeCitations = [],
       isStale = False, hasSideEffects = True, changeFired = 4 \<rparr>"

definition canceledResponseModel :: ChatResponseModel where
  "canceledResponseModel =
     \<lparr> id' = ''response_1'', shouldBeRemovedOnSend = False, isCompleteAddedRequest = False,
       response = emptyResponse,
       agent = None, slashCommand = None, isComplete = True, isCanceled = True,
       vote = None, voteDownReason = None, result = None,
       followups = None, usedContext = None, contentReferences = [], codeCitations = [],
       isStale = False, hasSideEffects = False, changeFired = 1 \<rparr>"

definition roundTripModel :: ChatModel where
  "roundTripModel =
     emptyModel\<lparr>exchanges :=
                   [RequestModel (sampleRequest\<lparr>shouldBeRemovedOnSend := False\<rparr>),
                    ResponseModel completeResponseModel,
                    ResponseModel canceledResponseModel],
                 counters := \<lparr> requestNextId = 1, responseNextId = 2 \<rparr>\<rparr>"

definition wellFormedResponse :: ISerializableChatResponseData where
  "wellFormedResponse =
     \<lparr> serResponse = Some [ValueMarkdown (MarkdownString ''Let me look at this.'')],
       serAgent = None, serSlashCommand = None, serResult = None, serResponseErrorDetails = None,
       serFollowups = None, serIsCanceled = Some False, serVote = None, serVoteDownReason = None,
       serUsedContext = None, serContentReferences = None, serCodeCitations = None,
       respIsHidden = Some False \<rparr>"


text \<open>The stage call that announces a stream.\<close>

abbreviation LoadingCall :: StreamCall where
  "LoadingCall \<equiv> StageCall ''Loading...''"

text \<open>
  From \<open>p\<close> to \<open>q\<close> the set of started streams is the same and the calls made are
  calls other than \<open>Loading...\<close>.
\<close>

definition noLoading :: "AideAgentSessionProvider \<Rightarrow> AideAgentSessionProvider \<Rightarrow> bool" where
  "noLoading p q \<longleftrightarrow>
     startedStreams q = startedStreams p \<and>
     (\<exists>calls. streamCalls q = streamCalls p @ calls \<and> (\<forall>c \<in> set calls. snd c \<noteq> LoadingCall))"

text \<open>
  A provider as its constructor leaves it, and the two ways in which its callers change
  the state modelled here: \<open>newExchangeIdForSession\<close> registers a stream,
  \<open>reportAgentEventsToChat\<close> runs the loop over the events of one sidecar stream. Loops
  that run concurrently interleave between two events, since the body of the loop awaits
  nothing: such a run is a sequence of loops over shorter event lists.
\<close>

definition freshProvider :: AideAgentSessionProvider where
  "freshProvider =
     \<lparr> responseStreamCollection = [], lastThinkingText = [], startedStreams = {}, streamCalls = [] \<rparr>"

datatype ProviderOp =
    NewExchangeIdForSession string "AideAgentEventSenderResponse option"
  | ReportAgentEventsToChat "SideCarAgentEvent list"

fun runOp :: "AideAgentSessionProvider \<Rightarrow> ProviderOp \<Rightarrow> AideAgentSessionProvider" where
  "runOp p (NewExchangeIdForSession session resp) = snd (newExchangeIdForSession session resp p)"
| "runOp p (ReportAgentEventsToChat events) = reportAgentEventsToChat events p"

definition runOps :: "ProviderOp list \<Rightarrow> AideAgentSessionProvider" where
  "runOps ops = foldl runOp freshProvider ops"

text \<open>Every key has had the \<open>Loading...\<close> stage once if it is started and never otherwise.\<close>

definition loadingOnce :: "AideAgentSessionProvider \<Rightarrow> bool" where
  "loadingOnce p \<longleftrightarrow>
     (\<forall>k. count_list (streamCalls p) (k, LoadingCall) = (if k \<in> startedStreams p then 1 else 0))"

text \<open>The state after the \<open>Loading...\<close> step of an iteration.\<close>

definition afterLoading :: "string \<Rightarrow> string \<Rightarrow> AideAgentSessionProvider \<Rightarrow> AideAgentSessionProvider" where
  "afterLoading s e p =
     (if getKey s e \<notin> startedStreams p
      then (callStream s e LoadingCall p)\<lparr>startedStreams := insert (getKey s e) (startedStreams p)\<rparr>
      else p)"

text \<open>Three streams open in one session, and a short run of chat events.\<close>

definition stream1 :: AideAgentEventSenderResponse where "stream1 = \<lparr> exchangeId = ''e1'' \<rparr>"
definition stream2 :: AideAgentEventSenderResponse where "stream2 = \<lparr> exchangeId = ''e2'' \<rparr>"
definition stream3 :: AideAgentEventSenderResponse where "stream3 = \<lparr> exchangeId = ''e3'' \<rparr>"

definition threeStreams :: AideAgentSessionProvider where
  "threeStreams =
     runOps [NewExchangeIdForSession ''s'' (Some stream1),
             NewExchangeIdForSession ''s'' (Some stream2),
             NewExchangeIdForSession ''s'' (Some stream3)]"

definition helloEvents :: "ProviderOp list" where
  "helloEvents =
     [NewExchangeIdForSession ''s'' (Some stream1),
      ReportAgentEventsToChat [UIEventWithId ''s'' ''e1'' (ChatEvent (Some ''Let me look''))],
      ReportAgentEventsToChat [KeepAlive, UIEventWithId ''s'' ''e1'' (ChatEvent (Some '' at this.''))]]"


section \<open>The merge invariant of markdown fragments\<close>

lemma canMerge_iff:
  "canMergeMarkdownStrings md1 md2 \<longleftrightarrow>
     (isTrusted md1 = isTrusted md2 \<and> supportHtml md1 = supportHtml md2 \<and>
      supportThemeIcons md1 = supportThemeIcons md2 \<and> baseUri md1 = baseUri md2)"
  by (auto simp: canMergeMarkdownStrings_def equals_def Let_def split: option.splits)

lemma updateMarkdown_push:
  "ps = [] \<or> (\<forall>l. last ps = MarkdownContent l \<longrightarrow> \<not> canMergeMarkdownStrings l c) \<Longrightarrow>
   updateMarkdown ps c = ps @ [MarkdownContent c]"
  by (auto simp: updateMarkdown_def split: IChatProgressResponseContent.splits)

lemma updateMarkdown_merge:
  "canMergeMarkdownStrings l c \<Longrightarrow>
   updateMarkdown (pre @ [MarkdownContent l]) c = pre @ [MarkdownContent (appendMarkdownString l c)]"
  by (simp add: updateMarkdown_def)

lemma parts_updateContent_md:
  "responseParts (updateContent r (Content (MarkdownContent c)) q) = updateMarkdown (responseParts r) c"
  by (simp add: updateRepr_def)

lemma updateMarkdown_shape:
  "\<exists>pre m p. updateMarkdown ps c = pre @ [MarkdownContent m] \<and> value m = p @ value c \<and>
     isTrusted m = isTrusted c \<and> supportHtml m = supportHtml c \<and>
     supportThemeIcons m = supportThemeIcons c \<and> baseUri m = baseUri c"
proof (cases "ps \<noteq> [] \<and> (\<exists>l. last ps = MarkdownContent l \<and> canMergeMarkdownStrings l c)")
  case True
  then obtain l where l: "last ps = MarkdownContent l" "canMergeMarkdownStrings l c" and ne: "ps \<noteq> []"
    by blast
  from ne l(1) have "ps = butlast ps @ [MarkdownContent l]"
    by (metis append_butlast_last_id)
  then have "updateMarkdown ps c = butlast ps @ [MarkdownContent (appendMarkdownString l c)]"
    using updateMarkdown_merge [OF l(2), of "butlast ps"] by simp
  moreover have "value (appendMarkdownString l c) = value l @ value c"
    by (simp add: appendMarkdownString_def)
  moreover have "isTrusted (appendMarkdownString l c) = isTrusted c"
    "supportHtml (appendMarkdownString l c) = supportHtml c"
    "supportThemeIcons (appendMarkdownString l c) = supportThemeIcons c"
    "baseUri (appendMarkdownString l c) = baseUri c"
    using l(2) by (simp_all add: appendMarkdownString_def canMerge_iff)
  ultimately show ?thesis by blast
next
  case False
  then have "updateMarkdown ps c = ps @ [MarkdownContent c]"
    by (intro updateMarkdown_push) blast
  then show ?thesis by (metis append_Nil)
qed


lemma appendMarkdownString_update:
  "appendMarkdownString m c = m\<lparr>value := value m @ value c\<rparr>"
  by (simp add: appendMarkdownString_def)

text \<open>
  Claim C4. Two markdown fragments \<open>f1\<close>, \<open>f2\<close> arrive one after the other at a response
  \<open>r\<close>. If their \<open>isTrusted\<close>, \<open>supportHtml\<close>, \<open>supportThemeIcons\<close> and \<open>baseUri\<close> are
  pairwise equal, the second call leaves the number of parts as the first call made it, and
  the last part is one markdown part whose text ends with the text of \<open>f1\<close> followed by the
  text of \<open>f2\<close>; when \<open>f1\<close> itself started a new part (the response was empty, or its last
  part was not a markdown part that \<open>f1\<close> could merge into), that part is \<open>f1\<close> with exactly
  the text of \<open>f1\<close> followed by the text of \<open>f2\<close>. If one of the four attributes differs,
  \<open>f2\<close> is pushed as a new part after the one that holds \<open>f1\<close>. A markdown fragment that
  arrives when the response is empty or its last part is not markdown is pushed as well.
\<close>

theorem updateContent_markdown_merge:
  "(isTrusted f1 = isTrusted f2 \<and> supportHtml f1 = supportHtml f2 \<and>
    supportThemeIcons f1 = supportThemeIcons f2 \<and> baseUri f1 = baseUri f2 \<longrightarrow>
      (\<exists>pre m p.
         responseParts (updateContent r (Content (MarkdownContent f1)) q1) = pre @ [MarkdownContent m] \<and>
         value m = p @ value f1 \<and>
         responseParts (updateContent (updateContent r (Content (MarkdownContent f1)) q1)
                          (Content (MarkdownContent f2)) q2)
           = pre @ [MarkdownContent (m\<lparr>value := p @ value f1 @ value f2\<rparr>)]) \<and>
      (responseParts r = [] \<or> (\<forall>l. last (responseParts r) = MarkdownContent l \<longrightarrow>
                                      \<not> canMergeMarkdownStrings l f1) \<longrightarrow>
         responseParts (updateContent (updateContent r (Content (MarkdownContent f1)) q1)
                          (Content (MarkdownContent f2)) q2)
           = responseParts r @ [MarkdownContent (f1\<lparr>value := value f1 @ value f2\<rparr>)])) \<and>
   (\<not> (isTrusted f1 = isTrusted f2 \<and> supportHtml f1 = supportHtml f2 \<and>
        supportThemeIcons f1 = supportThemeIcons f2 \<and> baseUri f1 = baseUri f2) \<longrightarrow>
      responseParts (updateContent (updateContent r (Content (MarkdownContent f1)) q1)
                       (Content (MarkdownContent f2)) q2)
        = responseParts (updateContent r (Content (MarkdownContent f1)) q1) @ [MarkdownContent f2]) \<and>
   (responseParts r = [] \<or> (\<forall>l. last (responseParts r) \<noteq> MarkdownContent l) \<longrightarrow>
      responseParts (updateContent r (Content (MarkdownContent f2)) q2)
        = responseParts r @ [MarkdownContent f2])"
proof -
  let ?same = "isTrusted f1 = isTrusted f2 \<and> supportHtml f1 = supportHtml f2 \<and>
    supportThemeIcons f1 = supportThemeIcons f2 \<and> baseUri f1 = baseUri f2"
  let ?ps1 = "updateMarkdown (responseParts r) f1"
  obtain pre m p where shape: "?ps1 = pre @ [MarkdownContent m]" "value m = p @ value f1"
    and attrs: "isTrusted m = isTrusted f1" "supportHtml m = supportHtml f1"
      "supportThemeIcons m = supportThemeIcons f1" "baseUri m = baseUri f1"
    using updateMarkdown_shape [of "responseParts r" f1] by blast
  have merge: "updateMarkdown ?ps1 f2 = pre @ [MarkdownContent (m\<lparr>value := p @ value f1 @ value f2\<rparr>)]"
    if ?same
  proof -
    from that attrs have "canMergeMarkdownStrings m f2" by (simp add: canMerge_iff)
    then show ?thesis
      using shape by (simp add: updateMarkdown_merge appendMarkdownString_update)
  qed
  have fresh: "updateMarkdown ?ps1 f2 = responseParts r @ [MarkdownContent (f1\<lparr>value := value f1 @ value f2\<rparr>)]"
    if ?same and "responseParts r = [] \<or> (\<forall>l. last (responseParts r) = MarkdownContent l \<longrightarrow>
                                      \<not> canMergeMarkdownStrings l f1)"
  proof -
    from that(2) have "?ps1 = responseParts r @ [MarkdownContent f1]"
      by (rule updateMarkdown_push)
    moreover from that(1) have "canMergeMarkdownStrings f1 f2" by (simp add: canMerge_iff)
    ultimately show ?thesis
      by (simp add: updateMarkdown_merge appendMarkdownString_update)
  qed
  have push: "updateMarkdown ?ps1 f2 = ?ps1 @ [MarkdownContent f2]" if "\<not> ?same"
  proof -
    from that attrs have "\<not> canMergeMarkdownStrings m f2" by (simp add: canMerge_iff)
    then have "?ps1 = [] \<or> (\<forall>l. last ?ps1 = MarkdownContent l \<longrightarrow> \<not> canMergeMarkdownStrings l f2)"
      using shape by simp
    then show ?thesis by (rule updateMarkdown_push)
  qed
  have single: "updateMarkdown (responseParts r) f2 = responseParts r @ [MarkdownContent f2]"
    if "responseParts r = [] \<or> (\<forall>l. last (responseParts r) \<noteq> MarkdownContent l)"
    using that by (intro updateMarkdown_push) blast
  show ?thesis
    unfolding parts_updateContent_md
    using shape merge fresh push single by blast
qed

theorem updateContent_markdown_merge_witness:
  "responseParts (updateContent (updateContent \<lparr>responseParts = [], citations = [], changeValueFired = 0\<rparr>
      (Content (MarkdownContent (MarkdownString ''Let me look''))) False)
      (Content (MarkdownContent (MarkdownString '' at this.''))) False)
   = [MarkdownContent (MarkdownString ''Let me look at this.'')]"
  using updateContent_markdown_merge [of "MarkdownString ''Let me look''" "MarkdownString '' at this.''"
      "\<lparr>responseParts = [], citations = [], changeValueFired = 0\<rparr>" False False]
  by (simp add: MarkdownString_def)

section \<open>Bucketing of text edits by URI\<close>

lemma mergeTextEdit_found:
  "snd (mergeTextEdit ps u es d) \<longleftrightarrow> u \<in> set (groupUris ps)"
  by (induction ps) (auto simp: isEqual_def split: IChatProgressResponseContent.splits prod.splits)

lemma groupUris_merge:
  "groupUris (fst (mergeTextEdit ps u es d)) = groupUris ps"
  by (induction ps) (auto simp: isEqual_def split: IChatProgressResponseContent.splits prod.splits)

lemma groupUris_append: "groupUris (ps @ qs) = groupUris ps @ groupUris qs"
  by (induction ps rule: groupUris.induct) auto

lemma groupUris_update:
  "groupUris (updateTextEdit ps u es d) =
     (if u \<in> set (groupUris ps) then groupUris ps else groupUris ps @ [u])"
  using mergeTextEdit_found [of ps u es d] groupUris_merge [of ps u es d]
  by (auto simp: updateTextEdit_def groupUris_append split: prod.splits)

lemma groupOf_append:
  "groupOf u (ps @ qs) = (case groupOf u ps of Some g \<Rightarrow> Some g | None \<Rightarrow> groupOf u qs)"
  by (induction u ps rule: groupOf.induct) auto

lemma groupOf_None: "groupOf u ps = None \<longleftrightarrow> u \<notin> set (groupUris ps)"
  by (induction u ps rule: groupOf.induct) auto

lemma groupOf_merge_same:
  "groupOf u (fst (mergeTextEdit ps u es d)) =
     (case groupOf u ps of None \<Rightarrow> None | Some (ces, st, cd) \<Rightarrow> Some (ces @ [es], st, d))"
  by (induction ps) (auto simp: isEqual_def split: IChatProgressResponseContent.splits prod.splits)

lemma groupOf_merge_other:
  "v \<noteq> u \<Longrightarrow> groupOf v (fst (mergeTextEdit ps u es d)) = groupOf v ps"
  by (induction ps) (auto simp: isEqual_def split: IChatProgressResponseContent.splits prod.splits)

lemma groupOf_update_same:
  "groupOf u (updateTextEdit ps u es d) =
     (case groupOf u ps of None \<Rightarrow> Some ([es], None, d) | Some (ces, st, cd) \<Rightarrow> Some (ces @ [es], st, d))"
  using mergeTextEdit_found [of ps u es d] groupOf_merge_same [of u ps es d] groupOf_None [of u ps]
  by (auto simp: updateTextEdit_def groupOf_append split: prod.splits option.splits)

lemma groupOf_update_other:
  "v \<noteq> u \<Longrightarrow> groupOf v (updateTextEdit ps u es d) = groupOf v ps"
  using groupOf_merge_other [of v u ps es d]
  by (auto simp: updateTextEdit_def groupOf_append split: prod.splits option.splits)

lemma others_merge:
  "filter (\<lambda>p. \<not> isTextEditGroup p) (fst (mergeTextEdit ps u es d)) = filter (\<lambda>p. \<not> isTextEditGroup p) ps"
  by (induction ps) (auto split: IChatProgressResponseContent.splits prod.splits)

lemma others_update:
  "filter (\<lambda>p. \<not> isTextEditGroup p) (updateTextEdit ps u es d) = filter (\<lambda>p. \<not> isTextEditGroup p) ps"
  using others_merge [of ps u es d]
  by (auto simp: updateTextEdit_def split: prod.splits)


lemma parts_updateContent_textEdit:
  "responseParts (updateContent r (TextEditProgress u es d) q) =
     (if es \<noteq> [] then updateTextEdit (responseParts r) u es d else responseParts r)"
  by (simp add: updateRepr_def)

lemma applyTextEdits_append:
  "applyTextEdits r (fs @ gs) = applyTextEdits (applyTextEdits r fs) gs"
  by (induction r fs rule: applyTextEdits.induct) auto

lemma applyTextEdits_snoc:
  "applyTextEdits r (fs @ [(u, es, d, q)]) = updateContent (applyTextEdits r fs) (TextEditProgress u es d) q"
  by (simp add: applyTextEdits_append)

lemma run_others:
  "filter (\<lambda>p. \<not> isTextEditGroup p) (responseParts (applyTextEdits r fs)) =
   filter (\<lambda>p. \<not> isTextEditGroup p) (responseParts r)"
  by (induction r fs rule: applyTextEdits.induct)
     (auto simp: parts_updateContent_textEdit others_update simp del: updateContent.simps)

lemma run_groupUris:
  assumes "groupUris (responseParts r) = []" "\<forall>f \<in> set fs. fst (snd f) \<noteq> []"
  shows "distinct (groupUris (responseParts (applyTextEdits r fs))) \<and>
         set (groupUris (responseParts (applyTextEdits r fs))) = fst ` set fs"
  using assms(2)
proof (induction fs rule: rev_induct)
  case Nil
  then show ?case using assms(1) by simp
next
  case (snoc f fs)
  obtain u es d q where f: "f = (u, es, d, q)" by (cases f) auto
  from snoc.prems f have ne: "es \<noteq> []" by simp
  from snoc have IH: "distinct (groupUris (responseParts (applyTextEdits r fs)))"
    "set (groupUris (responseParts (applyTextEdits r fs))) = fst ` set fs" by auto
  show ?case
    unfolding f applyTextEdits_snoc parts_updateContent_textEdit
    using ne IH by (auto simp: groupUris_update)
qed

lemma run_groupOf:
  assumes "groupUris (responseParts r) = []" "\<forall>f \<in> set fs. fst (snd f) \<noteq> []"
  shows "groupOf u (responseParts (applyTextEdits r fs)) =
           (if filter (\<lambda>f. fst f = u) fs = [] then None
            else Some (map (\<lambda>f. fst (snd f)) (filter (\<lambda>f. fst f = u) fs), None,
                       fst (snd (snd (last (filter (\<lambda>f. fst f = u) fs))))))"
  using assms(2)
proof (induction fs rule: rev_induct)
  case Nil
  then show ?case using assms(1) by (simp add: groupOf_None)
next
  case (snoc f fs)
  obtain v es d q where f: "f = (v, es, d, q)" by (cases f) auto
  from snoc.prems f have ne: "es \<noteq> []" by simp
  from snoc have IH: "groupOf u (responseParts (applyTextEdits r fs)) =
           (if filter (\<lambda>f. fst f = u) fs = [] then None
            else Some (map (\<lambda>f. fst (snd f)) (filter (\<lambda>f. fst f = u) fs), None,
                       fst (snd (snd (last (filter (\<lambda>f. fst f = u) fs))))))" by auto
  show ?case
  proof (cases "v = u")
    case True
    then show ?thesis
      unfolding f applyTextEdits_snoc parts_updateContent_textEdit
      using ne IH by (simp add: groupOf_update_same)
  next
    case False
    then show ?thesis
      unfolding f applyTextEdits_snoc parts_updateContent_textEdit
      using ne IH by (simp add: groupOf_update_other)
  qed
qed

lemma run_prefix:
  "\<exists>ys. groupUris (responseParts (applyTextEdits r fs)) = groupUris (responseParts r) @ ys"
proof (induction r fs rule: applyTextEdits.induct)
  case (1 r)
  then show ?case by simp
next
  case (2 r uri edits dn quiet rest)
  have "\<exists>zs. groupUris (responseParts (updateContent r (TextEditProgress uri edits dn) quiet)) =
          groupUris (responseParts r) @ zs"
    unfolding parts_updateContent_textEdit by (simp add: groupUris_update)
  with 2 show ?case by (auto simp del: updateContent.simps)
qed

lemma filter_groups:
  "distinct (groupUris ps) \<Longrightarrow>
   filter isTextEditGroup ps =
     map (\<lambda>u. case groupOf u ps of Some (es, st, d) \<Rightarrow> TextEditGroup u es st d
                                  | None \<Rightarrow> TextEditGroup u [] None None) (groupUris ps)"
proof (induction ps rule: groupUris.induct)
  case 1
  then show ?case by simp
next
  case (2 u es st d ps)
  then have "u \<notin> set (groupUris ps)" "distinct (groupUris ps)" by auto
  then show ?case using 2 by (auto intro!: map_cong)
qed auto

lemma two_distinct:
  assumes "distinct xs" "set xs = {a, b}" "a \<noteq> b"
  shows "xs = [a, b] \<or> xs = [b, a]"
proof -
  have "length xs = 2" using assms by (metis distinct_card card_2_iff)
  then obtain x y where "xs = [x, y]"
    by (metis (no_types, opaque_lifting) One_nat_def Suc_1 length_0_conv length_Suc_conv)
  then show ?thesis using assms by (auto simp: doubleton_eq_iff)
qed


lemma groupUris_Nil_iff: "groupUris ps = [] \<longleftrightarrow> (\<forall>p \<in> set ps. \<not> isTextEditGroup p)"
  by (induction ps rule: groupUris.induct) auto

lemma mergeTextEdit_skip:
  "\<forall>p \<in> set ps. \<not> isTextEditGroup p \<Longrightarrow>
   mergeTextEdit (ps @ gs) u es d = (ps @ fst (mergeTextEdit gs u es d), snd (mergeTextEdit gs u es d))"
  by (induction ps) (auto split: IChatProgressResponseContent.splits prod.splits)

lemma updateTextEdit_skip:
  "\<forall>p \<in> set ps. \<not> isTextEditGroup p \<Longrightarrow>
   updateTextEdit (ps @ gs) u es d = ps @ updateTextEdit gs u es d"
  by (simp add: updateTextEdit_def mergeTextEdit_skip split: prod.splits)

lemma mergeTextEdit_groups:
  "\<forall>g \<in> set gs. isTextEditGroup g \<Longrightarrow> \<forall>g \<in> set (fst (mergeTextEdit gs u es d)). isTextEditGroup g"
  by (induction gs) (auto split: IChatProgressResponseContent.splits prod.splits)

lemma updateTextEdit_groups:
  "\<forall>g \<in> set gs. isTextEditGroup g \<Longrightarrow> \<forall>g \<in> set (updateTextEdit gs u es d). isTextEditGroup g"
  using mergeTextEdit_groups [of gs u es d]
  by (cases "mergeTextEdit gs u es d") (auto simp: updateTextEdit_def)

lemma run_shape:
  assumes "\<forall>p \<in> set (responseParts r). \<not> isTextEditGroup p"
  shows "\<exists>gs. responseParts (applyTextEdits r fs) = responseParts r @ gs \<and> (\<forall>g \<in> set gs. isTextEditGroup g)"
proof (induction fs rule: rev_induct)
  case Nil
  then show ?case by simp
next
  case (snoc f fs)
  obtain u es d q where f: "f = (u, es, d, q)" by (cases f) auto
  from snoc obtain gs where gs: "responseParts (applyTextEdits r fs) = responseParts r @ gs"
    "\<forall>g \<in> set gs. isTextEditGroup g" by blast
  show ?case
  proof (cases "es = []")
    case True
    then show ?thesis
      unfolding f applyTextEdits_snoc parts_updateContent_textEdit using gs by auto
  next
    case False
    have "updateTextEdit (responseParts r @ gs) u es d = responseParts r @ updateTextEdit gs u es d"
      using assms by (rule updateTextEdit_skip)
    moreover have "\<forall>g \<in> set (updateTextEdit gs u es d). isTextEditGroup g"
      using gs(2) by (rule updateTextEdit_groups)
    ultimately show ?thesis
      unfolding f applyTextEdits_snoc parts_updateContent_textEdit using False gs(1) by auto
  qed
qed

lemma run_first:
  assumes "groupUris (responseParts r) = []" "fs \<noteq> []" "fst (snd (hd fs)) \<noteq> []"
  shows "\<exists>ys. groupUris (responseParts (applyTextEdits r fs)) = fst (hd fs) # ys"
proof -
  from assms(2) obtain u es d q rest where fs: "fs = (u, es, d, q) # rest"
    by (cases fs) auto
  with assms(3) have ne: "es \<noteq> []" by simp
  have "groupUris (responseParts (updateContent r (TextEditProgress u es d) q)) = [u]"
    unfolding parts_updateContent_textEdit using ne assms(1) by (simp add: groupUris_update)
  moreover have "\<exists>ys. groupUris (responseParts (applyTextEdits (updateContent r (TextEditProgress u es d) q) rest))
      = groupUris (responseParts (updateContent r (TextEditProgress u es d) q)) @ ys"
    by (rule run_prefix)
  ultimately show ?thesis unfolding fs by (auto simp del: updateContent.simps)
qed

text \<open>
  Claim C5. A response \<open>r\<close> holds no text-edit group yet. Any interleaving \<open>fs\<close> of
  non-empty text-edit fragments for a URI \<open>A\<close> with non-empty text-edit fragments for a
  different URI \<open>B\<close>, at least one of each, leaves the earlier parts as they were and adds
  exactly two text-edit groups after them, one for \<open>A\<close> and one for \<open>B\<close>, in the order in
  which the two URIs first arrived. The edit batches of each group are the batches of the
  fragments for its own URI, in arrival order, and its \<open>done\<close> flag is that of the last
  fragment for its URI.
\<close>

theorem updateContent_textEdit_bucketing:
  assumes "\<forall>p \<in> set (responseParts r). \<not> isTextEditGroup p"
    and "A \<noteq> B"
    and "\<forall>f \<in> set fs. (fst f = A \<or> fst f = B) \<and> fst (snd f) \<noteq> []"
    and "\<exists>f \<in> set fs. fst f = A"
    and "\<exists>f \<in> set fs. fst f = B"
  shows "responseParts (applyTextEdits r fs) =
           responseParts r @
           (let groupA = TextEditGroup A (map (\<lambda>f. fst (snd f)) (filter (\<lambda>f. fst f = A) fs)) None
                           (fst (snd (snd (last (filter (\<lambda>f. fst f = A) fs)))));
                groupB = TextEditGroup B (map (\<lambda>f. fst (snd f)) (filter (\<lambda>f. fst f = B) fs)) None
                           (fst (snd (snd (last (filter (\<lambda>f. fst f = B) fs)))))
            in if fst (hd fs) = A then [groupA, groupB] else [groupB, groupA])"
proof -
  let ?ps = "responseParts (applyTextEdits r fs)"
  have none: "groupUris (responseParts r) = []" using assms(1) by (simp add: groupUris_Nil_iff)
  have ne: "\<forall>f \<in> set fs. fst (snd f) \<noteq> []" using assms(3) by blast
  have fsne: "fs \<noteq> []" using assms(4) by auto
  have uris: "distinct (groupUris ?ps)" "set (groupUris ?ps) = {A, B}"
    using run_groupUris [OF none ne] assms(3,4,5) by (auto simp: image_iff)
  have fA: "filter (\<lambda>f. fst f = A) fs \<noteq> []" and fB: "filter (\<lambda>f. fst f = B) fs \<noteq> []"
    using assms(4,5) by (auto simp: filter_empty_conv)
  have gA: "groupOf A ?ps = Some (map (\<lambda>f. fst (snd f)) (filter (\<lambda>f. fst f = A) fs), None,
                       fst (snd (snd (last (filter (\<lambda>f. fst f = A) fs)))))"
    using run_groupOf [OF none ne, of A] fA by simp
  have gB: "groupOf B ?ps = Some (map (\<lambda>f. fst (snd f)) (filter (\<lambda>f. fst f = B) fs), None,
                       fst (snd (snd (last (filter (\<lambda>f. fst f = B) fs)))))"
    using run_groupOf [OF none ne, of B] fB by simp
  have hd_ne: "fst (snd (hd fs)) \<noteq> []" using fsne ne by simp
  obtain ys where ys: "groupUris ?ps = fst (hd fs) # ys"
    using run_first [OF none fsne hd_ne] by blast
  have order: "groupUris ?ps = (if fst (hd fs) = A then [A, B] else [B, A])"
    using two_distinct [OF uris assms(2)] ys by auto
  obtain gs where gs: "?ps = responseParts r @ gs" "\<forall>g \<in> set gs. isTextEditGroup g"
    using run_shape [OF assms(1)] by blast
  have "filter isTextEditGroup ?ps = gs"
    unfolding gs(1) using assms(1) gs(2) by (simp add: filter_id_conv)
  then have gs_eq: "gs = map (\<lambda>u. case groupOf u ?ps of Some (es, st, d) \<Rightarrow> TextEditGroup u es st d
                                  | None \<Rightarrow> TextEditGroup u [] None None) (groupUris ?ps)"
    using filter_groups [OF uris(1)] by simp
  show ?thesis
  proof (cases "fst (hd fs) = A")
    case True
    with order have "groupUris ?ps = [A, B]" by simp
    with gs_eq have "gs = [TextEditGroup A (map (\<lambda>f. fst (snd f)) (filter (\<lambda>f. fst f = A) fs)) None
              (fst (snd (snd (last (filter (\<lambda>f. fst f = A) fs))))),
            TextEditGroup B (map (\<lambda>f. fst (snd f)) (filter (\<lambda>f. fst f = B) fs)) None
              (fst (snd (snd (last (filter (\<lambda>f. fst f = B) fs)))))]"
      by (simp add: gA gB)
    with True show ?thesis unfolding gs(1) Let_def by simp
  next
    case False
    with order have "groupUris ?ps = [B, A]" by simp
    with gs_eq have "gs = [TextEditGroup B (map (\<lambda>f. fst (snd f)) (filter (\<lambda>f. fst f = B) fs)) None
              (fst (snd (snd (last (filter (\<lambda>f. fst f = B) fs))))),
            TextEditGroup A (map (\<lambda>f. fst (snd f)) (filter (\<lambda>f. fst f = A) fs)) None
              (fst (snd (snd (last (filter (\<lambda>f. fst f = A) fs)))))]"
      by (simp add: gA gB)
    with False show ?thesis unfolding gs(1) Let_def by simp
  qed
qed

theorem updateContent_textEdit_bucketing_witness:
  "responseParts (applyTextEdits \<lparr>responseParts = [Stage ''Editing''], citations = [], changeValueFired = 0\<rparr>
      [(uriA, [edit1], None, False), (uriB, [edit1, edit1], None, False), (uriA, [edit1, edit1, edit1], Some True, False)])
   = [Stage ''Editing'',
      TextEditGroup uriA [[edit1], [edit1, edit1, edit1]] None (Some True),
      TextEditGroup uriB [[edit1, edit1]] None None]"
proof -
  have ab: "uriA \<noteq> uriB" by (simp add: uriA_def uriB_def)
  show ?thesis
    using updateContent_textEdit_bucketing [of "\<lparr>responseParts = [Stage ''Editing''], citations = [], changeValueFired = 0\<rparr>"
      uriA uriB "[(uriA, [edit1], None, False), (uriB, [edit1, edit1], None, False), (uriA, [edit1, edit1, edit1], Some True, False)]"]
      ab
    by (simp add: Let_def)
qed

section \<open>Completing a response\<close>

lemma redacted_iff:
  "responseIsRedactedFlag r \<longleftrightarrow>
     (\<exists>res d. result r = Some res \<and> errorDetails res = Some d \<and> responseIsRedacted d = Some True)"
  by (simp add: responseIsRedactedFlag_def split: option.splits)

lemma parts_clearIfRedacted:
  "responseParts (response (clearIfRedacted r)) =
     (if responseIsRedactedFlag r then [] else responseParts (response r))"
  by (simp add: clearIfRedacted_def onResponse_def clear_def updateRepr_def Let_def)

lemma isComplete_clearIfRedacted: "isComplete (clearIfRedacted r) = isComplete r"
  by (simp add: clearIfRedacted_def onResponse_def Let_def)

lemma complete_props:
  "isComplete (complete r)" "responseParts (response (complete r)) = responseParts (response (clearIfRedacted r))"
  by (simp_all add: complete_def fireChange_def)

text \<open>
  Claim C6. \<open>completeResponse\<close> on a response returns normally; afterwards the response is
  complete and the \<open>lastExchangeComplete\<close> context is true. If the result of the response
  carries the redacted flag (\<open>result.errorDetails.responseIsRedacted\<close>), its content parts
  are the empty list, and otherwise they are what they were. The clearing is the first
  step: the response is the conditionally cleared one, with the complete flag then set
  and a change event fired, and at the conditionally cleared response the complete flag
  still has its old value while the parts already have their final value.
\<close>

theorem completeResponse_complete:
  "\<exists>r' m'. completeResponse (Some r) m = Inr (r', m') \<and>
     isComplete r' \<and>
     lastExchangeComplete m' = Some True \<and>
     responseParts (response r') =
       (if (\<exists>res d. result r = Some res \<and> errorDetails res = Some d \<and> responseIsRedacted d = Some True)
        then [] else responseParts (response r)) \<and>
     r' = fireChange ((clearIfRedacted r)\<lparr>isComplete := True\<rparr>) \<and>
     isComplete (clearIfRedacted r) = isComplete r \<and>
     responseParts (response (clearIfRedacted r)) = responseParts (response r')"
proof -
  have "completeResponse (Some r) m =
          Inr (complete r, (storeResponse (complete r) m)\<lparr>lastExchangeComplete := Some True\<rparr>)"
    by (simp add: completeResponse_def Let_def)
  moreover have "lastExchangeComplete ((storeResponse (complete r) m)\<lparr>lastExchangeComplete := Some True\<rparr>) = Some True"
    by simp
  moreover have "complete r = fireChange ((clearIfRedacted r)\<lparr>isComplete := True\<rparr>)"
    by (simp add: complete_def)
  ultimately show ?thesis
    using complete_props [of r] parts_clearIfRedacted [of r] isComplete_clearIfRedacted [of r]
      redacted_iff [of r]
    by (intro exI [of _ "complete r"] exI [of _ "(storeResponse (complete r) m)\<lparr>lastExchangeComplete := Some True\<rparr>"]) simp
qed

theorem completeResponse_complete_witness:
  "\<exists>r' m'. completeResponse (Some sampleResponse) sampleModel = Inr (r', m') \<and>
     isComplete r' \<and> lastExchangeComplete m' = Some True \<and> responseParts (response r') = [] \<and>
     responseParts (response sampleResponse) \<noteq> []"
proof -
  have red: "\<exists>res d. result sampleResponse = Some res \<and> errorDetails res = Some d \<and>
      responseIsRedacted d = Some True"
    by (simp add: sampleResponse_def)
  have ne: "responseParts (response sampleResponse) \<noteq> []"
    by (simp add: sampleResponse_def emptyResponse_def)
  from completeResponse_complete [of sampleResponse sampleModel]
  obtain r' m' where r: "completeResponse (Some sampleResponse) sampleModel = Inr (r', m')"
    "isComplete r'" "lastExchangeComplete m' = Some True"
    "responseParts (response r') =
       (if (\<exists>res d. result sampleResponse = Some res \<and> errorDetails res = Some d \<and>
              responseIsRedacted d = Some True)
        then [] else responseParts (response sampleResponse))"
    by blast
  from r(4) red have "responseParts (response r') = []" by simp
  with r(1,2,3) ne show ?thesis by blast
qed


section \<open>Adding a request\<close>

lemma newChatRequestModel_fields:
  assumes "newChatRequestModel c msg vars att conf loc atts ca = (request, c1)"
  shows "message request = msg" "variableData request = vars"
    "attempt request = (case att of None \<Rightarrow> 0 | Some a \<Rightarrow> a)"
    "id' request = ''request_'' @ numberToString (requestNextId c)"
    "\<not> shouldBeRemovedOnSend request"
  using assms unfolding newChatRequestModel_def by auto

lemma newChatResponseModel_empty:
  assumes "newChatResponseModel c [] ag cmd None None vt reason res fups ca = (resp, c1)"
  shows "responseParts (response resp) = []" "\<not> isComplete resp" "\<not> isCanceled resp"
    "id' resp = ''response_'' @ numberToString (responseNextId c)"
    "\<not> shouldBeRemovedOnSend resp"
  using assms unfolding newChatResponseModel_def newResponse_def updateRepr_def by auto

text \<open>
  Claim C7. \<open>addRequest\<close> appends one request and, right after it, one response with no
  content parts that is neither complete nor canceled, at the end of the exchange list,
  whose earlier elements stay as they were. It fires one change event, \<open>addRequest\<close> with the
  new request, which sees the list with both new exchanges; it sets the
  \<open>lastExchangeComplete\<close> context to false and returns the new request, which carries the
  message, variable data and attempt it was given.
\<close>

theorem addRequest_appends:
  "\<exists>request resp m'.
     addRequest msg vars att ag cmd conf loc atts ca now m = (request, m') \<and>
     exchanges m' = exchanges m @ [RequestModel request, ResponseModel resp] \<and>
     message request = msg \<and> variableData request = vars \<and> attempt request = att \<and>
     responseParts (response resp) = [] \<and> \<not> isComplete resp \<and> \<not> isCanceled resp \<and>
     didChange m' = didChange m @ [(AddRequest request, exchanges m')] \<and>
     lastExchangeComplete m' = Some False"
proof -
  obtain request c1 where rq: "newChatRequestModel (counters m) msg vars (Some att) conf loc atts ca = (request, c1)"
    by (cases "newChatRequestModel (counters m) msg vars (Some att) conf loc atts ca") blast
  obtain resp c2 where rs: "newChatResponseModel c1 [] ag cmd None None None None None None ca = (resp, c2)"
    by (cases "newChatResponseModel c1 [] ag cmd None None None None None None ca") blast
  let ?m3 = "m\<lparr>counters := c2,
                 exchanges := exchanges m @ [RequestModel request, ResponseModel resp],
                 lastMessageDate := now, lastExchangeComplete := Some False\<rparr>"
  have run: "addRequest msg vars att ag cmd conf loc atts ca now m = (request, fire (AddRequest request) ?m3)"
    unfolding addRequest_def autoAcceptLastExchange_def rq rs Let_def prod.case by simp
  have "exchanges (fire (AddRequest request) ?m3) = exchanges m @ [RequestModel request, ResponseModel resp]"
    "didChange (fire (AddRequest request) ?m3) =
       didChange m @ [(AddRequest request, exchanges (fire (AddRequest request) ?m3))]"
    "lastExchangeComplete (fire (AddRequest request) ?m3) = Some False"
    by (simp_all add: fire_def)
  with run newChatRequestModel_fields [OF rq] newChatResponseModel_empty [OF rs]
  show ?thesis by (intro exI [of _ request] exI [of _ resp] exI [of _ "fire (AddRequest request) ?m3"]) simp
qed


theorem addRequest_appends_witness:
  "\<exists>request resp m'.
     addRequest fixTheBug [] 0 None None None None None None 5 sampleModel = (request, m') \<and>
     exchanges m' = [RequestModel sampleRequest, ResponseModel sampleResponse,
                     RequestModel request, ResponseModel resp] \<and>
     message request = fixTheBug \<and>
     responseParts (response resp) = [] \<and> \<not> isComplete resp \<and>
     didChange m' = [(AddRequest request, exchanges m')] \<and>
     lastExchangeComplete m' = Some False"
proof -
  have ex: "exchanges sampleModel = [RequestModel sampleRequest, ResponseModel sampleResponse]"
    "didChange sampleModel = []"
    by (simp_all add: sampleModel_def emptyModel_def)
  from addRequest_appends [of fixTheBug "[]" 0 None None None None None None 5 sampleModel]
  obtain request resp m' where r:
    "addRequest fixTheBug [] 0 None None None None None None 5 sampleModel = (request, m')"
    "exchanges m' = exchanges sampleModel @ [RequestModel request, ResponseModel resp]"
    "message request = fixTheBug"
    "responseParts (response resp) = []" "\<not> isComplete resp"
    "didChange m' = didChange sampleModel @ [(AddRequest request, exchanges m')]"
    "lastExchangeComplete m' = Some False"
    by blast
  from r(2,6) have "exchanges m' = [RequestModel sampleRequest, ResponseModel sampleResponse,
                     RequestModel request, ResponseModel resp]"
    "didChange m' = [(AddRequest request, exchanges m')]"
    by (simp_all add: ex)
  with r(1,3,4,5,7) show ?thesis by blast
qed

section \<open>Hiding a batch of exchanges\<close>

lemma idOf_setExchangeHidden: "idOf (setExchangeHidden b e) = idOf e"
  by (cases e) (simp_all add: setShouldBeRemovedOnSend_def fireChange_def)

lemma hidden_setExchangeHidden: "exchangeShouldBeRemovedOnSend (setExchangeHidden b e) = b"
  by (cases e) (simp_all add: setShouldBeRemovedOnSend_def fireChange_def)

lemma setExchangeHidden_case:
  "setExchangeHidden b e =
     (case e of
        RequestModel r \<Rightarrow> RequestModel (r\<lparr>shouldBeRemovedOnSend := b\<rparr>)
      | ResponseModel r \<Rightarrow> ResponseModel (r\<lparr>shouldBeRemovedOnSend := b, changeFired := Suc (changeFired r)\<rparr>))"
  by (cases e) (simp_all add: setShouldBeRemovedOnSend_def fireChange_def)

text \<open>
  Claim C9. \<open>disableRequests(ids)\<close> visits every exchange and assigns its
  \<open>shouldBeRemovedOnSend\<close>: true when its id is in \<open>ids\<close>, false when it is not, so that an
  exchange hidden earlier and not in this batch is shown again. Nothing else changes in an
  exchange, but for the change event that the setter of a response fires. The ids of the
  list, in order, are the same as before, and the model fires exactly one event,
  \<open>setHidden\<close> with the set of the ids.
\<close>

theorem disableRequests_flags:
  "exchanges (disableRequests ids m) =
     map (\<lambda>e. case e of
                 RequestModel r \<Rightarrow> RequestModel (r\<lparr>shouldBeRemovedOnSend := idOf e \<in> set ids\<rparr>)
               | ResponseModel r \<Rightarrow>
                   ResponseModel (r\<lparr>shouldBeRemovedOnSend := idOf e \<in> set ids,
                                     changeFired := Suc (changeFired r)\<rparr>))
       (exchanges m) \<and>
   map idOf (exchanges (disableRequests ids m)) = map idOf (exchanges m) \<and>
   map exchangeShouldBeRemovedOnSend (exchanges (disableRequests ids m)) =
     map (\<lambda>e. idOf e \<in> set ids) (exchanges m) \<and>
   didChange (disableRequests ids m) =
     didChange m @ [(SetHidden (set ids), exchanges (disableRequests ids m))]"
proof -
  have ex: "exchanges (disableRequests ids m) =
              map (\<lambda>e. setExchangeHidden (idOf e \<in> set ids) e) (exchanges m)"
    by (simp add: disableRequests_def fire_def Let_def)
  have ev: "didChange (disableRequests ids m) =
     didChange m @ [(SetHidden (set ids), exchanges (disableRequests ids m))]"
    by (simp add: disableRequests_def fire_def Let_def)
  have c1: "map (\<lambda>e. setExchangeHidden (idOf e \<in> set ids) e) (exchanges m) =
     map (\<lambda>e. case e of
                 RequestModel r \<Rightarrow> RequestModel (r\<lparr>shouldBeRemovedOnSend := idOf e \<in> set ids\<rparr>)
               | ResponseModel r \<Rightarrow>
                   ResponseModel (r\<lparr>shouldBeRemovedOnSend := idOf e \<in> set ids,
                                     changeFired := Suc (changeFired r)\<rparr>))
       (exchanges m)"
    by (simp add: setExchangeHidden_case)
  have c2: "map idOf (map (\<lambda>e. setExchangeHidden (idOf e \<in> set ids) e) (exchanges m)) = map idOf (exchanges m)"
    by (simp add: idOf_setExchangeHidden o_def)
  have c3: "map exchangeShouldBeRemovedOnSend (map (\<lambda>e. setExchangeHidden (idOf e \<in> set ids) e) (exchanges m)) =
     map (\<lambda>e. idOf e \<in> set ids) (exchanges m)"
    by (simp add: hidden_setExchangeHidden o_def)
  from c1 c2 c3 ev show ?thesis
    unfolding ex by (intro conjI)
qed

theorem disableRequests_flags_witness:
  "map exchangeShouldBeRemovedOnSend (exchanges sampleModel) = [True, False] \<and>
   map exchangeShouldBeRemovedOnSend (exchanges (disableRequests [''response_0''] sampleModel)) = [False, True] \<and>
   map idOf (exchanges (disableRequests [''response_0''] sampleModel)) = [''request_0'', ''response_0'']"
  using disableRequests_flags [of "[''response_0'']" sampleModel]
  by (simp add: sampleModel_def sampleRequest_def sampleResponse_def emptyModel_def)


section \<open>Removing an exchange\<close>

lemma findIndex_None: "findIndex p xs = None \<longleftrightarrow> (\<forall>x \<in> set xs. \<not> p x)"
  by (induction xs) (auto split: option.splits)

lemma findIndex_Some:
  "findIndex p xs = Some i \<Longrightarrow> i < length xs \<and> p (xs ! i) \<and> (\<forall>j < i. \<not> p (xs ! j))"
proof (induction xs arbitrary: i)
  case Nil
  then show ?case by simp
next
  case (Cons x xs)
  show ?case
  proof (cases "p x")
    case True
    with Cons.prems show ?thesis by simp
  next
    case False
    with Cons.prems obtain k where k: "findIndex p xs = Some k" "i = Suc k"
      by (auto split: option.splits)
    from Cons.IH [OF k(1)] False k(2) show ?thesis
      by (auto simp: nth_Cons split: nat.splits)
  qed
qed


text \<open>
  Claim C10. When no exchange has the id, \<open>removeExchange\<close> changes nothing: the exchange
  list, the fired events and the disposed responses are as before. When an exchange has
  it, the first such exchange is taken out of the list and the rest keeps its order; one
  \<open>removeExchange\<close> event with the id and the reason is fired, and it still sees the list
  with the exchange in it; the exchange is disposed if it is a response, and nothing is
  disposed if it is a request.
\<close>

theorem removeExchange_effects:
  "(ident \<notin> idOf ` set (exchanges m) \<longrightarrow> removeExchange ident reason m = m) \<and>
   (ident \<in> idOf ` set (exchanges m) \<longrightarrow>
      (\<exists>i < length (exchanges m).
         idOf (exchanges m ! i) = ident \<and> (\<forall>j < i. idOf (exchanges m ! j) \<noteq> ident) \<and>
         didChange (removeExchange ident reason m) =
           didChange m @ [(RemoveExchange ident reason, exchanges m)] \<and>
         exchanges (removeExchange ident reason m) =
           take i (exchanges m) @ drop (Suc i) (exchanges m) \<and>
         disposed (removeExchange ident reason m) =
           disposed m @ (if isResponseModel (exchanges m ! i) then [ident] else [])))"
proof (intro conjI impI)
  assume "ident \<notin> idOf ` set (exchanges m)"
  then have "findIndex (\<lambda>exchange. idOf exchange = ident) (exchanges m) = None"
    by (auto simp: findIndex_None)
  then show "removeExchange ident reason m = m"
    by (simp add: removeExchange_def)
next
  assume "ident \<in> idOf ` set (exchanges m)"
  then have "findIndex (\<lambda>exchange. idOf exchange = ident) (exchanges m) \<noteq> None"
    by (auto simp: findIndex_None)
  then obtain i where i: "findIndex (\<lambda>exchange. idOf exchange = ident) (exchanges m) = Some i"
    by blast
  from findIndex_Some [OF i] have props: "i < length (exchanges m)" "idOf (exchanges m ! i) = ident"
    "\<forall>j < i. idOf (exchanges m ! j) \<noteq> ident" by auto
  have "didChange (removeExchange ident reason m) =
           didChange m @ [(RemoveExchange ident reason, exchanges m)]"
    "exchanges (removeExchange ident reason m) = take i (exchanges m) @ drop (Suc i) (exchanges m)"
    "disposed (removeExchange ident reason m) =
           disposed m @ (if isResponseModel (exchanges m ! i) then [ident] else [])"
    using props(2) by (simp_all add: removeExchange_def i fire_def splice1_def Let_def)
  with props show "\<exists>i < length (exchanges m).
         idOf (exchanges m ! i) = ident \<and> (\<forall>j < i. idOf (exchanges m ! j) \<noteq> ident) \<and>
         didChange (removeExchange ident reason m) =
           didChange m @ [(RemoveExchange ident reason, exchanges m)] \<and>
         exchanges (removeExchange ident reason m) =
           take i (exchanges m) @ drop (Suc i) (exchanges m) \<and>
         disposed (removeExchange ident reason m) =
           disposed m @ (if isResponseModel (exchanges m ! i) then [ident] else [])"
    by blast
qed

theorem removeExchange_effects_witness:
  "removeExchange ''request_7'' Removal sampleModel = sampleModel \<and>
   exchanges (removeExchange ''response_0'' Resend sampleModel) = [RequestModel sampleRequest] \<and>
   didChange (removeExchange ''response_0'' Resend sampleModel) =
     [(RemoveExchange ''response_0'' Resend, [RequestModel sampleRequest, ResponseModel sampleResponse])] \<and>
   disposed (removeExchange ''response_0'' Resend sampleModel) = [''response_0''] \<and>
   exchanges (removeExchange ''request_0'' Removal sampleModel) = [ResponseModel sampleResponse] \<and>
   disposed (removeExchange ''request_0'' Removal sampleModel) = []"
proof -
  have ex: "exchanges sampleModel = [RequestModel sampleRequest, ResponseModel sampleResponse]"
    by (simp add: sampleModel_def)
  have nil: "didChange sampleModel = []" "disposed sampleModel = []"
    by (simp_all add: sampleModel_def emptyModel_def)
  have id0: "id' sampleRequest = ''request_0''"
    by (simp add: sampleRequest_def)
  have id1: "id' sampleResponse = ''response_0''"
    by (simp add: sampleResponse_def)
  have ids: "idOf ` set (exchanges sampleModel) = {''request_0'', ''response_0''}"
    unfolding ex by (simp add: id0 id1)
  have miss: "''request_7'' \<notin> idOf ` set (exchanges sampleModel)"
    unfolding ids by simp
  have a: "removeExchange ''request_7'' Removal sampleModel = sampleModel"
    using removeExchange_effects [of "''request_7''" sampleModel Removal] miss by blast
  have hit1: "''response_0'' \<in> idOf ` set (exchanges sampleModel)"
    unfolding ids by simp
  from removeExchange_effects [of "''response_0''" sampleModel Resend] hit1
  obtain i where i: "i < length (exchanges sampleModel)" "idOf (exchanges sampleModel ! i) = ''response_0''"
    "didChange (removeExchange ''response_0'' Resend sampleModel) =
           didChange sampleModel @ [(RemoveExchange ''response_0'' Resend, exchanges sampleModel)]"
    "exchanges (removeExchange ''response_0'' Resend sampleModel) =
           take i (exchanges sampleModel) @ drop (Suc i) (exchanges sampleModel)"
    "disposed (removeExchange ''response_0'' Resend sampleModel) =
           disposed sampleModel @ (if isResponseModel (exchanges sampleModel ! i) then [''response_0''] else [])"
    by blast
  from i(1) have "i = 0 \<or> i = Suc 0" unfolding ex by auto
  moreover have "i \<noteq> 0"
  proof
    assume "i = 0"
    with i(2) show False unfolding ex by (simp add: id0)
  qed
  ultimately have i1: "i = Suc 0" by simp
  have b: "exchanges (removeExchange ''response_0'' Resend sampleModel) = [RequestModel sampleRequest]"
    "didChange (removeExchange ''response_0'' Resend sampleModel) =
     [(RemoveExchange ''response_0'' Resend, [RequestModel sampleRequest, ResponseModel sampleResponse])]"
    "disposed (removeExchange ''response_0'' Resend sampleModel) = [''response_0'']"
    using i(3,4,5) unfolding i1 ex nil by simp_all
  have hit0: "''request_0'' \<in> idOf ` set (exchanges sampleModel)"
    unfolding ids by simp
  from removeExchange_effects [of "''request_0''" sampleModel Removal] hit0
  obtain k where k: "k < length (exchanges sampleModel)" "idOf (exchanges sampleModel ! k) = ''request_0''"
    "exchanges (removeExchange ''request_0'' Removal sampleModel) =
           take k (exchanges sampleModel) @ drop (Suc k) (exchanges sampleModel)"
    "disposed (removeExchange ''request_0'' Removal sampleModel) =
           disposed sampleModel @ (if isResponseModel (exchanges sampleModel ! k) then [''request_0''] else [])"
    by blast
  from k(1) have "k = 0 \<or> k = Suc 0" unfolding ex by auto
  moreover have "k \<noteq> Suc 0"
  proof
    assume "k = Suc 0"
    with k(2) show False unfolding ex by (simp add: id1)
  qed
  ultimately have k0: "k = 0" by simp
  have c: "exchanges (removeExchange ''request_0'' Removal sampleModel) = [ResponseModel sampleResponse]"
    "disposed (removeExchange ''request_0'' Removal sampleModel) = []"
    using k(3,4) unfolding k0 ex nil by simp_all
  from a b c show ?thesis by (intro conjI)
qed


section \<open>Export followed by deserialization\<close>

lemma deserializeExchange_request:
  "deserializeExchange c (SerializedRequest raw) =
     (Inl UnknownExchange, c\<lparr>requestNextId := Suc (requestNextId c)\<rparr>)"
  by (simp add: newChatRequestModel_def Let_def)

lemma deserializeExchanges_request:
  "\<exists>raw \<in> set raws. \<exists>req. raw = SerializedRequest req \<Longrightarrow>
   \<exists>e c1. deserializeExchanges c raws = (Inl e, c1)"
proof (induction raws arbitrary: c)
  case Nil
  then show ?case by simp
next
  case (Cons raw raws)
  obtain res c1 where hd: "deserializeExchange c raw = (res, c1)"
    by (cases "deserializeExchange c raw") blast
  show ?case
  proof (cases res)
    case (Inl e)
    with hd show ?thesis by simp
  next
    case (Inr x)
    have "\<nexists>req. raw = SerializedRequest req"
    proof
      assume "\<exists>req. raw = SerializedRequest req"
      then obtain req where "raw = SerializedRequest req" by blast
      with hd Inr show False
        by (simp add: deserializeExchange_request del: deserializeExchange.simps)
    qed
    with Cons.prems have "\<exists>raw \<in> set raws. \<exists>req. raw = SerializedRequest req" by simp
    from Cons.IH [OF this, of c1] obtain e c2 where "deserializeExchanges c1 raws = (Inl e, c2)"
      by blast
    with hd Inr show ?thesis by simp
  qed
qed

lemma newChatModel_with_request:
  assumes "\<exists>x \<in> set (exchanges m). isRequestModel x"
  shows "\<exists>m'. newChatModel isIUsedContext uuid now c (toJSON m) = Inr m' \<and> exchanges m' = []"
proof -
  from assms obtain r where "RequestModel r \<in> set (exchanges m)"
    by (metis isRequestModel.elims(2))
  then have "exportExchange (RequestModel r) \<in> set (map exportExchange (exchanges m))"
    unfolding set_map by (rule imageI)
  moreover have "\<exists>req. exportExchange (RequestModel r) = SerializedRequest req"
    by simp
  ultimately have "\<exists>raw \<in> set (map exportExchange (exchanges m)). \<exists>req. raw = SerializedRequest req"
    by blast
  from deserializeExchanges_request [OF this, of c]
  obtain e c1 where run: "deserializeExchanges c (map exportExchange (exchanges m)) = (Inl e, c1)"
    by blast
  have ex: "serExchanges (toJSON m) = Some (map exportExchange (exchanges m))"
    by (simp add: toJSON_def toExport_def IExportableChatData.extend_def)
  have "deserialize c (serExchanges (toJSON m)) = ([], [FailedToParseChatData e], c1)"
    unfolding ex by (simp add: deserialize_def run)
  then show ?thesis
    unfolding newChatModel_def isSerializableSessionData_def ex by (simp add: Let_def)
qed

text \<open>
  Claim C1. The claim is that \<open>toJSON\<close> followed by the construction of a \<open>ChatModel\<close>
  over the result gives back an equivalent exchange list. The callback of
  \<open>_deserialize\<close> has no \<open>return\<close> in its request branch, so every request record ends in
  the final \<open>throw\<close>, and the \<open>catch\<close> gives the empty list (lemma
  \<open>newChatModel_with_request\<close>). For the session of the claim, with one request, one
  complete response and one canceled response, the model built from its own \<open>toJSON\<close> has
  no exchange at all, and one logged error.
\<close>

theorem toJSON_deserialize_loses_session:
  "length (exchanges roundTripModel) = 3 \<and>
   (case newChatModel (\<lambda>u. True) ''uuid'' 7 (counters roundTripModel) (toJSON roundTripModel) of
      Inl e \<Rightarrow> False
    | Inr m \<Rightarrow> exchanges m = [] \<and> logged m = [FailedToParseChatData UnknownExchange])"
  by code_simp

section \<open>Unrecognized persisted exchanges\<close>

lemma deserializeExchange_unrecognized:
  "unrecognized raw \<Longrightarrow> \<exists>e. deserializeExchange c raw = (Inl e, c)"
  by (cases raw) (auto simp: deserializeResponse_def)

lemma deserializeExchanges_unrecognized:
  "\<exists>raw \<in> set raws. unrecognized raw \<Longrightarrow> \<exists>e c1. deserializeExchanges c raws = (Inl e, c1)"
proof (induction raws arbitrary: c)
  case Nil
  then show ?case by simp
next
  case (Cons raw raws)
  obtain res c1 where hd: "deserializeExchange c raw = (res, c1)"
    by (cases "deserializeExchange c raw") blast
  show ?case
  proof (cases res)
    case (Inl e)
    with hd show ?thesis by simp
  next
    case (Inr x)
    with hd have "\<not> unrecognized raw"
      using deserializeExchange_unrecognized [of raw c] by auto
    with Cons.prems have "\<exists>raw \<in> set raws. unrecognized raw" by simp
    from Cons.IH [OF this, of c1] obtain e c2 where "deserializeExchanges c1 raws = (Inl e, c2)"
      by blast
    with hd Inr show ?thesis by simp
  qed
qed

text \<open>
  Claim C2, as amended. When a persisted exchange list holds a record of unrecognized
  shape, \<open>_deserialize\<close> returns normally, with the empty exchange list and one logged
  error (\<open>Failed to parse chat data\<close>): the \<open>try\<close> is around the whole map, so the
  well-formed exchanges of the list are dropped with the unrecognized one.
\<close>

theorem deserialize_unrecognized_drops_all:
  "\<exists>raw \<in> set raws. unrecognized raw \<Longrightarrow>
   \<exists>e c1. deserialize c (Some raws) = ([], [FailedToParseChatData e], c1)"
proof -
  assume "\<exists>raw \<in> set raws. unrecognized raw"
  from deserializeExchanges_unrecognized [OF this, of c]
  obtain e c1 where "deserializeExchanges c raws = (Inl e, c1)" by blast
  then show ?thesis by (simp add: deserialize_def)
qed

theorem deserialize_unrecognized_drops_all_witness:
  "(\<exists>raw \<in> set [SerializedResponse wellFormedResponse, SerializedOther None]. unrecognized raw) \<and>
   (\<exists>e c1. deserialize emptyCounters (Some [SerializedResponse wellFormedResponse, SerializedOther None])
             = ([], [FailedToParseChatData e], c1))"
  using deserialize_unrecognized_drops_all [of "[SerializedResponse wellFormedResponse, SerializedOther None]" emptyCounters]
  by simp

text \<open>
  The claim as it was stated fails: a well-formed response alone deserializes to one
  exchange, and followed by one unrecognized record it is not kept.
\<close>

theorem deserialize_drops_only_one_counterexample:
  "length (fst (deserialize emptyCounters (Some [SerializedResponse wellFormedResponse]))) = 1 \<and>
   fst (deserialize emptyCounters
          (Some [SerializedResponse wellFormedResponse, SerializedOther None])) = []"
  by code_simp


section \<open>The Loading stage of a stream\<close>

lemma noLoading_refl: "noLoading p p"
  by (simp add: noLoading_def)

lemma noLoading_trans:
  assumes "noLoading p q" "noLoading q r"
  shows "noLoading p r"
proof -
  from assms(1) obtain c1 where c1: "startedStreams q = startedStreams p"
    "streamCalls q = streamCalls p @ c1" "\<forall>c \<in> set c1. snd c \<noteq> LoadingCall"
    unfolding noLoading_def by blast
  from assms(2) obtain c2 where c2: "startedStreams r = startedStreams q"
    "streamCalls r = streamCalls q @ c2" "\<forall>c \<in> set c2. snd c \<noteq> LoadingCall"
    unfolding noLoading_def by blast
  have "streamCalls r = streamCalls p @ (c1 @ c2)" "\<forall>c \<in> set (c1 @ c2). snd c \<noteq> LoadingCall"
    using c1 c2 by auto
  with c1(1) c2(1) show ?thesis unfolding noLoading_def by metis
qed

lemma callStream_noLoading: "call \<noteq> LoadingCall \<Longrightarrow> noLoading p (callStream s e call p)"
  by (auto simp: noLoading_def callStream_def split: option.splits)

lemma callStream_collection [simp]:
  "responseStreamCollection (callStream s e call p) = responseStreamCollection p"
  by (simp add: callStream_def split: option.splits)

lemma callStream_getResponseStream [simp]:
  "getResponseStream s' e' (callStream s e call p) = getResponseStream s' e' p"
  by (simp add: getResponseStream_def)

lemma closeAndRemove_noLoading: "noLoading p (closeAndRemoveResponseStream s e p)"
proof -
  have "noLoading p (callStream s e CloseCall p)"
    by (rule callStream_noLoading) simp
  then show ?thesis
    by (simp add: closeAndRemoveResponseStream_def removeResponseStream_def noLoading_def Let_def)
qed

lemma closeFold_noLoading:
  "noLoading p (foldl (\<lambda>q stream. closeAndRemoveResponseStream s (exchangeId stream) q) p sts)"
proof (induction sts arbitrary: p)
  case Nil
  then show ?case by (simp add: noLoading_refl)
next
  case (Cons st sts)
  show ?case
    using noLoading_trans [OF closeAndRemove_noLoading Cons.IH] by simp
qed

lemma closeAll_noLoading: "noLoading p (closeAllResponseStreams s p)"
  by (simp add: closeAllResponseStreams_def closeFold_noLoading)


lemma handleToolThinking_noLoading: "noLoading p (handleToolThinking s e t p)"
proof -
  let ?delta = "drop (length (case map_of (lastThinkingText p) (getKey s e) of None \<Rightarrow> [] | Some t \<Rightarrow> t)) t"
  let ?p1 = "if ?delta \<noteq> [] then callStream s e (MarkdownCall (?delta @ ''\<newline>'')) p else p"
  have "noLoading p ?p1"
    by (simp add: callStream_noLoading noLoading_refl)
  then have "noLoading p (?p1\<lparr>lastThinkingText := AList.update (getKey s e) t (lastThinkingText ?p1)\<rparr>)"
    by (simp add: noLoading_def)
  then show ?thesis
    by (simp add: handleToolThinking_def Let_def)
qed

lemma handleToolParameterFound_noLoading: "noLoading p (handleToolParameterFound s e f d p)"
  by (simp add: handleToolParameterFound_def callStream_noLoading noLoading_refl)

lemma complete_noLoading:
  "noLoading p (closeAllResponseStreams s (callStream s e (StageCall ''Complete'') p))"
  by (rule noLoading_trans [OF callStream_noLoading closeAll_noLoading]) simp

lemma error_noLoading:
  "noLoading p (closeAllResponseStreams s
                (callStream s e (StageCall ''Error'') (callStream s e (ToolTypeErrorCall m) p)))"
  by (rule noLoading_trans [OF callStream_noLoading
        noLoading_trans [OF callStream_noLoading closeAll_noLoading]]) simp_all

lemma handleFrameworkEvent_noLoading: "noLoading p (snd (handleFrameworkEvent s e ev p))"
proof (cases ev)
  case (ToolUseDetected input)
  show ?thesis
  proof (cases input)
    case None
    with ToolUseDetected show ?thesis by (simp add: noLoading_refl)
  next
    case (Some tool)
    with ToolUseDetected show ?thesis
      by (cases tool) (simp_all add: noLoading_refl callStream_noLoading complete_noLoading)
  qed
qed (simp_all add: noLoading_refl callStream_noLoading handleToolThinking_noLoading
       handleToolParameterFound_noLoading error_noLoading)

lemma finish_noLoading:
  "noLoading p (closeAndRemoveResponseStream s e (callStream s e (StageCall ''Complete'') p))"
  by (rule noLoading_trans [OF callStream_noLoading closeAndRemove_noLoading]) simp

lemma handleExchangeEvent_noLoading: "noLoading p (snd (handleExchangeEvent s e ev p))"
  by (cases ev) (simp_all add: noLoading_refl callStream_noLoading finish_noLoading)

lemma planTitle_noLoading:
  "noLoading p (callStream s e (StepCall i t) (callStream s e (StageCall ''Planning'') p))"
  by (rule noLoading_trans [OF callStream_noLoading callStream_noLoading]) simp_all

lemma handleUIEvent_noLoading: "noLoading p (snd (handleUIEvent s e ev p))"
proof (cases ev)
  case (SymbolEventSubStep symbolName fsFilePath req)
  then show ?thesis
    by (cases req) (simp_all add: noLoading_refl callStream_noLoading)
next
  case (PlanEvent pe)
  then show ?thesis
    by (cases pe) (simp_all add: planTitle_noLoading callStream_noLoading)
next
  case (ChatEvent delta)
  then show ?thesis
    by (cases delta) (simp_all add: noLoading_refl callStream_noLoading)
qed (simp_all add: noLoading_refl handleFrameworkEvent_noLoading handleExchangeEvent_noLoading)


lemma noLoading_count:
  assumes "noLoading p q"
  shows "count_list (streamCalls q) (k, LoadingCall) = count_list (streamCalls p) (k, LoadingCall)"
proof -
  from assms obtain calls where c: "streamCalls q = streamCalls p @ calls"
    "\<forall>c \<in> set calls. snd c \<noteq> LoadingCall"
    unfolding noLoading_def by blast
  from c(2) have "(k, LoadingCall) \<notin> set calls" by force
  then have "count_list calls (k, LoadingCall) = 0" by (simp add: count_list_0_iff)
  with c(1) show ?thesis by simp
qed

lemma noLoading_loadingOnce: "noLoading p q \<Longrightarrow> loadingOnce p \<Longrightarrow> loadingOnce q"
  unfolding loadingOnce_def using noLoading_count [of p q] by (simp add: noLoading_def)

lemma reportAgentEvent_routed:
  "getResponseStream s e p \<noteq> None \<Longrightarrow>
   reportAgentEvent (UIEventWithId s e ev) p = handleUIEvent s e ev (afterLoading s e p)"
  by (auto simp: afterLoading_def Let_def)

lemma reportAgentEvent_dropped:
  "getResponseStream s e p = None \<Longrightarrow> reportAgentEvent (UIEventWithId s e ev) p = (Continue, p)"
  by simp

lemma afterLoading_calls:
  "getResponseStream s e p \<noteq> None \<Longrightarrow>
   streamCalls (afterLoading s e p) =
     streamCalls p @ (if getKey s e \<in> startedStreams p then [] else [(getKey s e, LoadingCall)])"
  by (auto simp: afterLoading_def callStream_def)

lemma afterLoading_started:
  "startedStreams (afterLoading s e p) = insert (getKey s e) (startedStreams p)"
  by (auto simp: afterLoading_def)

lemma afterLoading_collection [simp]:
  "responseStreamCollection (afterLoading s e p) = responseStreamCollection p"
  by (simp add: afterLoading_def)

lemma afterLoading_loadingOnce:
  assumes "getResponseStream s e p \<noteq> None" "loadingOnce p"
  shows "loadingOnce (afterLoading s e p)"
  unfolding loadingOnce_def afterLoading_calls [OF assms(1)] afterLoading_started
  using assms(2) by (auto simp: loadingOnce_def)

lemma reportAgentEvent_loadingOnce:
  assumes "loadingOnce p"
  shows "loadingOnce (snd (reportAgentEvent ev p))"
proof (cases ev)
  case (UIEventWithId s e ue)
  show ?thesis
  proof (cases "getResponseStream s e p = None")
    case True
    with UIEventWithId assms show ?thesis by simp
  next
    case False
    have "loadingOnce (afterLoading s e p)"
      using False assms by (rule afterLoading_loadingOnce)
    then have "loadingOnce (snd (handleUIEvent s e ue (afterLoading s e p)))"
      using handleUIEvent_noLoading noLoading_loadingOnce by blast
    then show ?thesis
      unfolding UIEventWithId reportAgentEvent_routed [OF False] .
  qed
qed (use assms in simp_all)

lemma reportAgentEventsToChat_loadingOnce:
  "loadingOnce p \<Longrightarrow> loadingOnce (reportAgentEventsToChat events p)"
proof (induction events arbitrary: p)
  case Nil
  then show ?case by simp
next
  case (Cons ev events)
  obtain ctl p1 where step: "reportAgentEvent ev p = (ctl, p1)"
    by (cases "reportAgentEvent ev p") blast
  from reportAgentEvent_loadingOnce [OF Cons.prems, of ev] step have p1: "loadingOnce p1" by simp
  show ?case
  proof (cases ctl)
    case Continue
    with step Cons.IH [OF p1] show ?thesis by simp
  next
    case Return
    with step p1 show ?thesis by simp
  qed
qed

lemma runOp_loadingOnce: "loadingOnce p \<Longrightarrow> loadingOnce (runOp p op)"
proof (cases op)
  case (NewExchangeIdForSession s resp)
  assume "loadingOnce p"
  then show ?thesis unfolding NewExchangeIdForSession
    by (cases resp) (simp_all add: newExchangeIdForSession_def addResponseStream_def loadingOnce_def)
next
  case (ReportAgentEventsToChat events)
  assume "loadingOnce p"
  then show ?thesis unfolding ReportAgentEventsToChat
    by (simp add: reportAgentEventsToChat_loadingOnce)
qed

lemma foldl_runOp_loadingOnce: "loadingOnce p \<Longrightarrow> loadingOnce (foldl runOp p ops)"
  by (induction ops arbitrary: p) (simp_all add: runOp_loadingOnce)

lemma runOps_loadingOnce: "loadingOnce (runOps ops)"
  unfolding runOps_def
  by (rule foldl_runOp_loadingOnce) (simp add: loadingOnce_def freshProvider_def)

text \<open>
  Claim C8. Over any sequence of stream registrations and event loops of a provider, the
  stage \<open>Loading...\<close> is sent at most once under the key of a (session id, exchange id)
  pair, and it has been sent exactly when the key is in \<open>startedStreams\<close>. An event whose
  pair has no open stream is skipped with no effect. An event that is routed to an open
  stream sends \<open>Loading...\<close> first if its key is not yet in \<open>startedStreams\<close>, and not at
  all if it is; whatever else the iteration sends is not a \<open>Loading...\<close> stage, and the
  key is in \<open>startedStreams\<close> afterwards.
\<close>

theorem loading_stage_once:
  "count_list (streamCalls (runOps ops)) (getKey session exchange, StageCall ''Loading...'') \<le> 1 \<and>
   (count_list (streamCalls (runOps ops)) (getKey session exchange, StageCall ''Loading...'') = 1
      \<longleftrightarrow> getKey session exchange \<in> startedStreams (runOps ops)) \<and>
   (getResponseStream session exchange p = None \<longrightarrow>
      reportAgentEvent (UIEventWithId session exchange ev) p = (Continue, p)) \<and>
   (getResponseStream session exchange p \<noteq> None \<longrightarrow>
      getKey session exchange \<in> startedStreams (snd (reportAgentEvent (UIEventWithId session exchange ev) p)) \<and>
      (\<exists>calls.
         streamCalls (snd (reportAgentEvent (UIEventWithId session exchange ev) p)) =
           streamCalls p @
           (if getKey session exchange \<in> startedStreams p then []
            else [(getKey session exchange, StageCall ''Loading...'')]) @ calls \<and>
         (\<forall>c \<in> set calls. snd c \<noteq> StageCall ''Loading...'')))"
proof -
  have inv: "count_list (streamCalls (runOps ops)) (getKey session exchange, LoadingCall) =
      (if getKey session exchange \<in> startedStreams (runOps ops) then 1 else 0)"
    using runOps_loadingOnce [of ops] unfolding loadingOnce_def by blast
  have routed: "getKey session exchange \<in> startedStreams (snd (reportAgentEvent (UIEventWithId session exchange ev) p)) \<and>
      (\<exists>calls.
         streamCalls (snd (reportAgentEvent (UIEventWithId session exchange ev) p)) =
           streamCalls p @
           (if getKey session exchange \<in> startedStreams p then []
            else [(getKey session exchange, LoadingCall)]) @ calls \<and>
         (\<forall>c \<in> set calls. snd c \<noteq> LoadingCall))"
    if routed_open: "getResponseStream session exchange p \<noteq> None"
  proof -
    let ?p1 = "afterLoading session exchange p"
    let ?p2 = "snd (handleUIEvent session exchange ev ?p1)"
    have "noLoading ?p1 ?p2" by (rule handleUIEvent_noLoading)
    then obtain calls where c: "startedStreams ?p2 = startedStreams ?p1"
      "streamCalls ?p2 = streamCalls ?p1 @ calls" "\<forall>c \<in> set calls. snd c \<noteq> LoadingCall"
      unfolding noLoading_def by blast
    from c(1) have "getKey session exchange \<in> startedStreams ?p2"
      by (simp add: afterLoading_started)
    moreover from c(2) have "streamCalls ?p2 = streamCalls p @
           (if getKey session exchange \<in> startedStreams p then []
            else [(getKey session exchange, LoadingCall)]) @ calls"
      by (simp add: afterLoading_calls [OF routed_open])
    ultimately show ?thesis
      unfolding reportAgentEvent_routed [OF routed_open] using c(3) by blast
  qed
  from inv routed show ?thesis
    by (simp del: reportAgentEvent.simps add: reportAgentEvent_dropped)
qed


theorem loading_stage_once_witness:
  "streamCalls (runOps helloEvents) =
     [(''s-e1'', StageCall ''Loading...''), (''s-e1'', MarkdownCall ''Let me look''),
      (''s-e1'', MarkdownCall '' at this.'')] \<and>
   count_list (streamCalls (runOps helloEvents)) (getKey ''s'' ''e1'', StageCall ''Loading...'') = 1 \<and>
   getResponseStream ''s'' ''e1'' (runOps helloEvents) \<noteq> None \<and>
   streamCalls (snd (reportAgentEvent (UIEventWithId ''s'' ''e1'' (ChatEvent (Some ''!''))) (runOps helloEvents))) =
     streamCalls (runOps helloEvents) @ [(''s-e1'', MarkdownCall ''!'')]"
proof -
  have calls: "streamCalls (runOps helloEvents) =
     [(''s-e1'', StageCall ''Loading...''), (''s-e1'', MarkdownCall ''Let me look''),
      (''s-e1'', MarkdownCall '' at this.'')]"
    by code_simp
  have started: "getKey ''s'' ''e1'' \<in> startedStreams (runOps helloEvents)" by code_simp
  have routed: "getResponseStream ''s'' ''e1'' (runOps helloEvents) \<noteq> None" by code_simp
  have next_calls: "streamCalls (snd (reportAgentEvent (UIEventWithId ''s'' ''e1'' (ChatEvent (Some ''!''))) (runOps helloEvents))) =
     streamCalls (runOps helloEvents) @ [(''s-e1'', MarkdownCall ''!'')]"
    by code_simp
  from loading_stage_once [of helloEvents "''s''" "''e1''" "runOps helloEvents" "ChatEvent (Some ''!'')"]
    started
  have "count_list (streamCalls (runOps helloEvents)) (getKey ''s'' ''e1'', StageCall ''Loading...'') = 1"
    by blast
  with calls routed next_calls show ?thesis by blast
qed

section \<open>Terminal events\<close>

lemma closeAndRemove_map_of:
  "map_of (responseStreamCollection (closeAndRemoveResponseStream s e p)) k =
     (if k = getKey s e then None else map_of (responseStreamCollection p) k)"
  by (simp add: closeAndRemoveResponseStream_def removeResponseStream_def Let_def delete_conv')

lemma closeAndRemove_collection:
  "responseStreamCollection (closeAndRemoveResponseStream s e p) =
     AList.delete (getKey s e) (responseStreamCollection p)"
  by (simp add: closeAndRemoveResponseStream_def removeResponseStream_def Let_def)

lemma closeAndRemove_closes:
  "map_of (responseStreamCollection p) (getKey s e) \<noteq> None \<Longrightarrow>
   (getKey s e, CloseCall) \<in> set (streamCalls (closeAndRemoveResponseStream s e p))"
  by (auto simp: closeAndRemoveResponseStream_def removeResponseStream_def Let_def callStream_def
      getResponseStream_def)

lemma noLoading_calls_mono: "noLoading p q \<Longrightarrow> set (streamCalls p) \<subseteq> set (streamCalls q)"
  by (auto simp: noLoading_def)

lemma closeFold_None:
  "map_of (responseStreamCollection p) k = None \<Longrightarrow>
   map_of (responseStreamCollection
     (foldl (\<lambda>q stream. closeAndRemoveResponseStream s (exchangeId stream) q) p sts)) k = None"
  by (induction sts arbitrary: p) (simp_all add: closeAndRemove_map_of)

lemma closeFold_removes:
  "st \<in> set sts \<Longrightarrow>
   map_of (responseStreamCollection
     (foldl (\<lambda>q stream. closeAndRemoveResponseStream s (exchangeId stream) q) p sts))
     (getKey s (exchangeId st)) = None"
proof (induction sts arbitrary: p)
  case Nil
  then show ?case by simp
next
  case (Cons a sts)
  show ?case
  proof (cases "st = a")
    case True
    have "map_of (responseStreamCollection (closeAndRemoveResponseStream s (exchangeId a) p))
            (getKey s (exchangeId a)) = None"
      by (simp add: closeAndRemove_map_of)
    then show ?thesis unfolding True by (simp add: closeFold_None)
  next
    case False
    with Cons.prems have "st \<in> set sts" by simp
    from Cons.IH [OF this] show ?thesis by simp
  qed
qed

lemma closeFold_closes:
  "st \<in> set sts \<Longrightarrow> map_of (responseStreamCollection p) (getKey s (exchangeId st)) \<noteq> None \<Longrightarrow>
   (getKey s (exchangeId st), CloseCall) \<in> set (streamCalls
     (foldl (\<lambda>q stream. closeAndRemoveResponseStream s (exchangeId stream) q) p sts))"
proof (induction sts arbitrary: p)
  case Nil
  then show ?case by simp
next
  case (Cons a sts)
  let ?p1 = "closeAndRemoveResponseStream s (exchangeId a) p"
  show ?case
  proof (cases "getKey s (exchangeId a) = getKey s (exchangeId st)")
    case True
    with Cons.prems(2) have "(getKey s (exchangeId st), CloseCall) \<in> set (streamCalls ?p1)"
      using closeAndRemove_closes [of p s "exchangeId a"] by simp
    moreover have "set (streamCalls ?p1) \<subseteq> set (streamCalls
       (foldl (\<lambda>q stream. closeAndRemoveResponseStream s (exchangeId stream) q) ?p1 sts))"
      by (rule noLoading_calls_mono [OF closeFold_noLoading])
    ultimately show ?thesis by auto
  next
    case False
    then have "st \<noteq> a" by auto
    with Cons.prems(1) have mem: "st \<in> set sts" by simp
    from False Cons.prems(2)
    have "map_of (responseStreamCollection ?p1) (getKey s (exchangeId st)) \<noteq> None"
      by (simp add: closeAndRemove_map_of)
    from Cons.IH [OF mem this] show ?thesis by simp
  qed
qed

lemma closeAll_closes:
  assumes "getResponseStream s e' p = Some st" "exchangeId st = e'"
  shows "getResponseStream s e' (closeAllResponseStreams s p) = None"
    and "(getKey s e', CloseCall) \<in> set (streamCalls (closeAllResponseStreams s p))"
proof -
  from assms(1) have "(getKey s e', st) \<in> set (responseStreamCollection p)"
    unfolding getResponseStream_def by (rule map_of_SomeD)
  then have mem: "st \<in> set (getAllResponseStreams p)"
    unfolding getAllResponseStreams_def by force
  from closeFold_removes [OF mem, of s p] assms(2)
  show "getResponseStream s e' (closeAllResponseStreams s p) = None"
    by (simp add: getResponseStream_def closeAllResponseStreams_def)
  from assms have "map_of (responseStreamCollection p) (getKey s (exchangeId st)) \<noteq> None"
    by (simp add: getResponseStream_def)
  from closeFold_closes [OF mem this] assms(2)
  show "(getKey s e', CloseCall) \<in> set (streamCalls (closeAllResponseStreams s p))"
    by (simp add: closeAllResponseStreams_def)
qed


lemma afterLoading_getResponseStream [simp]:
  "getResponseStream s' e' (afterLoading s e p) = getResponseStream s' e' p"
  by (simp add: getResponseStream_def)

lemma fanOut_closes:
  assumes "getResponseStream s e' p = Some st" "exchangeId st = e'"
    and "responseStreamCollection q = responseStreamCollection p"
  shows "getResponseStream s e' (closeAllResponseStreams s q) = None \<and>
         (getKey s e', CloseCall) \<in> set (streamCalls (closeAllResponseStreams s q))"
proof -
  from assms(1,3) have "getResponseStream s e' q = Some st"
    by (simp add: getResponseStream_def)
  from closeAll_closes [OF this assms(2)] show ?thesis by simp
qed

lemma single_close:
  assumes "getResponseStream s e p \<noteq> None"
    and "responseStreamCollection q = responseStreamCollection p"
  shows "responseStreamCollection (closeAndRemoveResponseStream s e q) =
           AList.delete (getKey s e) (responseStreamCollection p) \<and>
         (getKey s e, CloseCall) \<in> set (streamCalls (closeAndRemoveResponseStream s e q))"
proof -
  from assms have "map_of (responseStreamCollection q) (getKey s e) \<noteq> None"
    by (simp add: getResponseStream_def)
  from closeAndRemove_closes [OF this] assms(2) show ?thesis
    by (simp add: closeAndRemove_collection)
qed

text \<open>
  Claim C3, as amended. An event is routed to an open stream of a session. If it is a
  completion tool use (\<open>AttemptCompletion\<close>) or a tool-type error, the loop ends there, and
  every stream that was open under this session id and its own exchange id is closed and
  is no longer in the collection. If it is \<open>FinishedExchange\<close>, or \<open>MarkedComplete\<close> of the
  edits or of the plans, the stream of the pair that produced the event is closed and the
  collection loses exactly the entry of that pair.
\<close>

theorem terminal_events_close_streams:
  assumes "getResponseStream session exchange p \<noteq> None"
  shows
    "(ev = FrameworkEvent (ToolUseDetected (Some AttemptCompletion)) \<or>
      ev = FrameworkEvent (ToolTypeErrorEvent msg) \<longrightarrow>
        reportAgentEventsToChat (UIEventWithId session exchange ev # rest) p =
          reportAgentEventsToChat [UIEventWithId session exchange ev] p \<and>
        (\<forall>e' st. getResponseStream session e' p = Some st \<and> exchangeId st = e' \<longrightarrow>
           getResponseStream session e' (reportAgentEventsToChat [UIEventWithId session exchange ev] p) = None \<and>
           (getKey session e', CloseCall) \<in>
             set (streamCalls (reportAgentEventsToChat [UIEventWithId session exchange ev] p)))) \<and>
     (ev = ExchangeEvent FinishedExchange \<or>
      ev = ExchangeEvent (EditsExchangeState ''MarkedComplete'') \<or>
      ev = ExchangeEvent (PlansExchangeState ''MarkedComplete'') \<longrightarrow>
        responseStreamCollection (reportAgentEventsToChat [UIEventWithId session exchange ev] p) =
          AList.delete (getKey session exchange) (responseStreamCollection p) \<and>
        (getKey session exchange, CloseCall) \<in>
          set (streamCalls (reportAgentEventsToChat [UIEventWithId session exchange ev] p)))"
proof -
  let ?p1 = "afterLoading session exchange p"
  note routed = reportAgentEvent_routed [OF assms]
  have attempt: "reportAgentEvent (UIEventWithId session exchange
                    (FrameworkEvent (ToolUseDetected (Some AttemptCompletion)))) p =
      (Return, closeAllResponseStreams session (callStream session exchange (StageCall ''Complete'') ?p1))"
    unfolding routed by simp
  have err: "reportAgentEvent (UIEventWithId session exchange (FrameworkEvent (ToolTypeErrorEvent msg))) p =
      (Return, closeAllResponseStreams session
                 (callStream session exchange (StageCall ''Error'')
                    (callStream session exchange (ToolTypeErrorCall msg) ?p1)))"
    unfolding routed by simp
  have fin: "reportAgentEvent (UIEventWithId session exchange (ExchangeEvent FinishedExchange)) p =
      (Continue, closeAndRemoveResponseStream session exchange
                   (callStream session exchange (StageCall ''Complete'') ?p1))"
    unfolding routed by simp
  have edits: "reportAgentEvent (UIEventWithId session exchange
                   (ExchangeEvent (EditsExchangeState ''MarkedComplete''))) p =
      (Return, closeAndRemoveResponseStream session exchange
                   (callStream session exchange (StageCall ''Complete'') ?p1))"
    unfolding routed by simp
  have plans: "reportAgentEvent (UIEventWithId session exchange
                   (ExchangeEvent (PlansExchangeState ''MarkedComplete''))) p =
      (Return, closeAndRemoveResponseStream session exchange
                   (callStream session exchange (StageCall ''Complete'') ?p1))"
    unfolding routed by simp
  have c1: "responseStreamCollection (callStream session exchange (StageCall ''Complete'') ?p1) =
      responseStreamCollection p"
    by simp
  have c2: "responseStreamCollection (callStream session exchange (StageCall ''Error'')
                    (callStream session exchange (ToolTypeErrorCall msg) ?p1)) =
      responseStreamCollection p"
    by simp
  have fan: "reportAgentEventsToChat (UIEventWithId session exchange ev # rest) p =
          reportAgentEventsToChat [UIEventWithId session exchange ev] p \<and>
        (\<forall>e' st. getResponseStream session e' p = Some st \<and> exchangeId st = e' \<longrightarrow>
           getResponseStream session e' (reportAgentEventsToChat [UIEventWithId session exchange ev] p) = None \<and>
           (getKey session e', CloseCall) \<in>
             set (streamCalls (reportAgentEventsToChat [UIEventWithId session exchange ev] p)))"
    if "ev = FrameworkEvent (ToolUseDetected (Some AttemptCompletion)) \<or>
        ev = FrameworkEvent (ToolTypeErrorEvent msg)"
    using that
  proof
    assume ev: "ev = FrameworkEvent (ToolUseDetected (Some AttemptCompletion))"
    show ?thesis
      unfolding ev reportAgentEventsToChat.simps attempt
      using fanOut_closes [OF _ _ c1] by simp
  next
    assume ev: "ev = FrameworkEvent (ToolTypeErrorEvent msg)"
    show ?thesis
      unfolding ev reportAgentEventsToChat.simps err
      using fanOut_closes [OF _ _ c2] by simp
  qed
  have one: "responseStreamCollection (reportAgentEventsToChat [UIEventWithId session exchange ev] p) =
          AList.delete (getKey session exchange) (responseStreamCollection p) \<and>
        (getKey session exchange, CloseCall) \<in>
          set (streamCalls (reportAgentEventsToChat [UIEventWithId session exchange ev] p))"
    if "ev = ExchangeEvent FinishedExchange \<or>
      ev = ExchangeEvent (EditsExchangeState ''MarkedComplete'') \<or>
      ev = ExchangeEvent (PlansExchangeState ''MarkedComplete'')"
    using that
  proof (elim disjE)
    assume ev: "ev = ExchangeEvent FinishedExchange"
    show ?thesis
      unfolding ev reportAgentEventsToChat.simps fin
      using single_close [OF assms c1] by simp
  next
    assume ev: "ev = ExchangeEvent (EditsExchangeState ''MarkedComplete'')"
    show ?thesis
      unfolding ev reportAgentEventsToChat.simps edits
      using single_close [OF assms c1] by simp
  next
    assume ev: "ev = ExchangeEvent (PlansExchangeState ''MarkedComplete'')"
    show ?thesis
      unfolding ev reportAgentEventsToChat.simps plans
      using single_close [OF assms c1] by simp
  qed
  from fan one show ?thesis by blast
qed


theorem terminal_events_close_streams_witness:
  "getResponseStream ''s'' ''e1'' threeStreams \<noteq> None \<and>
   getResponseStream ''s'' ''e1'' (reportAgentEventsToChat
      [UIEventWithId ''s'' ''e1'' (FrameworkEvent (ToolUseDetected (Some AttemptCompletion)))] threeStreams) = None \<and>
   getResponseStream ''s'' ''e2'' (reportAgentEventsToChat
      [UIEventWithId ''s'' ''e1'' (FrameworkEvent (ToolUseDetected (Some AttemptCompletion)))] threeStreams) = None \<and>
   getResponseStream ''s'' ''e3'' (reportAgentEventsToChat
      [UIEventWithId ''s'' ''e1'' (FrameworkEvent (ToolUseDetected (Some AttemptCompletion)))] threeStreams) = None \<and>
   responseStreamCollection (reportAgentEventsToChat
      [UIEventWithId ''s'' ''e1'' (ExchangeEvent FinishedExchange)] threeStreams) =
     AList.delete (getKey ''s'' ''e1'') (responseStreamCollection threeStreams)"
proof -
  have s1: "getResponseStream ''s'' ''e1'' threeStreams = Some stream1" by code_simp
  have s2: "getResponseStream ''s'' ''e2'' threeStreams = Some stream2" by code_simp
  have s3: "getResponseStream ''s'' ''e3'' threeStreams = Some stream3" by code_simp
  have ids: "exchangeId stream1 = ''e1''" "exchangeId stream2 = ''e2''" "exchangeId stream3 = ''e3''"
    by (simp_all add: stream1_def stream2_def stream3_def)
  have op1: "getResponseStream ''s'' ''e1'' threeStreams \<noteq> None" using s1 by simp
  note fan = terminal_events_close_streams [OF op1,
      of "FrameworkEvent (ToolUseDetected (Some AttemptCompletion))" "[]" "[]"]
  note one = terminal_events_close_streams [OF op1, of "ExchangeEvent FinishedExchange" "[]" "[]"]
  from fan s1 s2 s3 ids one op1 show ?thesis by blast
qed


text \<open>
  The claim as it was stated fails for \<open>FinishedExchange\<close>: of three streams open in one
  session, the event closes one and leaves two.
\<close>

theorem finished_exchange_closes_one_counterexample:
  "map fst (responseStreamCollection threeStreams) = [''s-e1'', ''s-e2'', ''s-e3''] \<and>
   map fst (responseStreamCollection
     (reportAgentEventsToChat [UIEventWithId ''s'' ''e1'' (ExchangeEvent FinishedExchange)] threeStreams))
     = [''s-e2'', ''s-e3'']"
  by code_simp

end
